theory Spec2Isabelle
  imports Complex_Main "HOL-Library.Word" "HOL-Library.Multiset" "HOL-Library.Log_Nat"
begin

text \<open>
  A model of the media analyzer \<^verbatim>\<open>EnhancedTwitterMediaAnalyzer\<close>: its engagement-count
  parser, its identifiers, the two caches with extraction-time insertion, trimming, export
  and import, the detection pass, and the scroll loop with its start and stop commands.
  Each function keeps the name it has in the source. State that the JavaScript mutates is
  passed in and returned; an exception is a value; what the browser supplies (the document,
  the clock, a failing scroll, a stop command, the firing of a timer) is an argument.
\<close>

section \<open>JavaScript numbers and strings\<close>

text \<open>
  The analyzer (\<^verbatim>\<open>EnhancedTwitterMediaAnalyzer\<close>) is JavaScript. Its numbers are IEEE-754
  doubles. A number is modelled as a rational that a double can hold, \<open>Infinity\<close>, or
  \<open>NaN\<close>. The numbers the engagement parser and the duration parser compute are never
  negative, and the arithmetic below is for such numbers. Negative infinity, which only
  an imported record could hold, is left out.
  Strings are lists of characters; every character the parser keeps is ASCII, so the
  difference between UTF-16 code units and bytes does not show.
\<close>

datatype jsnumber = Num rat | Infinity | NaN

text \<open>\<open>ilog2 x\<close> is the exponent \<open>e\<close> with \<open>2^e \<le> x < 2^(e+1)\<close>, for \<open>x > 0\<close>.\<close>

definition ilog2 :: "rat \<Rightarrow> int" where
  "ilog2 x = (let e = bitlen (fst (quotient_of x)) - bitlen (snd (quotient_of x))
              in if 2 powi e \<le> x then e else e - 1)"

definition roundHalfEven :: "rat \<Rightarrow> int" where
  "roundHalfEven y = (let f = \<lfloor>y\<rfloor>; d = y - of_int f
     in if d < 1/2 then f else if 1/2 < d then f + 1 else if even f then f else f + 1)"

text \<open>
  Rounding of a non-negative real value to the nearest double, ties to even: 53 bits of
  precision (\<open>n\<close> is the significand, \<open>q\<close> the unit in the last place), gradual
  underflow below \<open>2^-1022\<close>, and overflow to \<open>Infinity\<close> when the rounded value
  \<open>n * q\<close> reaches \<open>2^1024\<close>, which is when \<open>e \<ge> 1024\<close>, or \<open>e = 1023\<close> and the
  significand rounds up to \<open>2^53\<close>. It is only ever applied to non-negative values.
\<close>

definition toDouble :: "rat \<Rightarrow> jsnumber" where
  "toDouble x = (if x \<le> 0 then Num 0
     else let e = max (ilog2 x) (- 1022);
              q = 2 powi (e - 52);
              n = roundHalfEven (x / q)
          in if 1024 \<le> e \<or> (e = 1023 \<and> n = 2 ^ 53) then Infinity else Num (of_int n * q))"

text \<open>
  \<^verbatim>\<open>number * c\<close> for a positive constant \<open>c\<close>, \<^verbatim>\<open>Math.round\<close> (which returns
  \<open>floor (x + 0.5)\<close>, exactly) and \<^verbatim>\<open>isNaN\<close>.
\<close>

fun times :: "jsnumber \<Rightarrow> rat \<Rightarrow> jsnumber" where
  "times (Num x) c = toDouble (x * c)"
| "times Infinity c = Infinity"
| "times NaN c = NaN"

fun Math_round :: "jsnumber \<Rightarrow> jsnumber" where
  "Math_round (Num x) = Num (of_int \<lfloor>x + 1/2\<rfloor>)"
| "Math_round Infinity = Infinity"
| "Math_round NaN = NaN"

fun isNaN :: "jsnumber \<Rightarrow> bool" where
  "isNaN NaN = True"
| "isNaN _ = False"

text \<open>
  \<^verbatim>\<open>a + b\<close> on numbers that are not negative, and the truthiness of a number: 0 and
  \<open>NaN\<close> are falsy.
\<close>

fun add :: "jsnumber \<Rightarrow> jsnumber \<Rightarrow> jsnumber" where
  "add (Num x) (Num y) = toDouble (x + y)"
| "add (Num x) Infinity = Infinity"
| "add (Num x) NaN = NaN"
| "add Infinity (Num y) = Infinity"
| "add Infinity Infinity = Infinity"
| "add Infinity NaN = NaN"
| "add NaN y = NaN"

fun truthyNumber :: "jsnumber \<Rightarrow> bool" where
  "truthyNumber (Num x) = (x \<noteq> 0)"
| "truthyNumber Infinity = True"
| "truthyNumber NaN = False"

definition isDigit :: "char \<Rightarrow> bool" where
  "isDigit c = (c \<in> set ''0123456789'')"

definition digitsValue :: "string \<Rightarrow> nat" where
  "digitsValue ds = foldl (\<lambda>a c. 10 * a + (of_char c - 48)) 0 ds"

text \<open>
  \<^verbatim>\<open>parseFloat\<close> on the strings the two parsers pass to it, which hold only digits
  and dots: the longest prefix that is a decimal literal (\<open>digits\<close>, \<open>digits.\<close>,
  \<open>digits.digits\<close> or \<open>.digits\<close>) is read and the rest ignored; with no such prefix the
  result is \<open>NaN\<close>. Signs, exponents and white space cannot occur there.
\<close>

definition parseFloat :: "string \<Rightarrow> jsnumber" where
  "parseFloat s =
     (let intPart = takeWhile isDigit s;
          rest = dropWhile isDigit s;
          fracPart = (case rest of [] \<Rightarrow> [] | c # cs \<Rightarrow> if c = CHR ''.'' then takeWhile isDigit cs else [])
      in if intPart = [] \<and> fracPart = [] then NaN
         else toDouble (of_nat (digitsValue intPart)
                        + of_nat (digitsValue fracPart) / 10 ^ length fracPart))"

text \<open>
  \<^verbatim>\<open>toUpperCase\<close> and \<^verbatim>\<open>toLowerCase\<close> on ASCII text: the 26 lower-case letters map
  to their capitals, and back.
\<close>

definition upperChar :: "char \<Rightarrow> char" where
  "upperChar c = (case map_of (zip ''abcdefghijklmnopqrstuvwxyz'' ''ABCDEFGHIJKLMNOPQRSTUVWXYZ'') c of
                    Some u \<Rightarrow> u | None \<Rightarrow> c)"

definition toUpperCase :: "string \<Rightarrow> string" where
  "toUpperCase s = map upperChar s"

definition lowerChar :: "char \<Rightarrow> char" where
  "lowerChar c = (case map_of (zip ''ABCDEFGHIJKLMNOPQRSTUVWXYZ'' ''abcdefghijklmnopqrstuvwxyz'') c of
                    Some l \<Rightarrow> l | None \<Rightarrow> c)"

definition toLowerCase :: "string \<Rightarrow> string" where
  "toLowerCase s = map lowerChar s"

subsection \<open>\<^verbatim>\<open>parseEngagementCount\<close>\<close>

text \<open>
  \<^verbatim>\<open>text.replace(/[^0-9KkMmBb.]/g, '').toUpperCase()\<close> and
  \<^verbatim>\<open>cleanText.replace(/[KMB]/g, '')\<close>.
\<close>

definition keptChar :: "char \<Rightarrow> bool" where
  "keptChar c = (c \<in> set ''0123456789KkMmBb.'')"

definition suffixLetter :: "char \<Rightarrow> bool" where
  "suffixLetter c = (c \<in> set ''KMB'')"

definition cleanText :: "string \<Rightarrow> string" where
  "cleanText text = toUpperCase (filter keptChar text)"

definition numberText :: "string \<Rightarrow> string" where
  "numberText clean = filter (\<lambda>c. \<not> suffixLetter c) clean"

definition parseEngagementCount :: "string \<Rightarrow> jsnumber" where
  "parseEngagementCount text =
     (if text = [] then Num 0
      else let clean = cleanText text in
        if length clean = 0 then Num 0
        else let number = parseFloat (numberText clean) in
          if isNaN number then Num 0
          else if CHR ''K'' \<in> set clean then Math_round (times number 1000)
          else if CHR ''M'' \<in> set clean then Math_round (times number 1000000)
          else if CHR ''B'' \<in> set clean then Math_round (times number 1000000000)
          else Math_round number)"

section \<open>Values, Maps and identifiers\<close>

text \<open>
  A string-valued slot of a JavaScript object holds \<^verbatim>\<open>undefined\<close> (the property is
  missing), \<^verbatim>\<open>null\<close> or a string. \<open>truthy\<close> is JavaScript's truthiness, \<open>orElse a b\<close> is
  \<^verbatim>\<open>a || b\<close>, \<open>orEmpty a\<close> is \<^verbatim>\<open>a || ''\<close>, and \<^verbatim>\<open>===\<close> on these values is equality.
\<close>

datatype jsval = Undefined | Null | Str string

fun truthy :: "jsval \<Rightarrow> bool" where
  "truthy (Str s) = (s \<noteq> [])"
| "truthy _ = False"

definition orElse :: "jsval \<Rightarrow> jsval \<Rightarrow> jsval" where
  "orElse a b = (if truthy a then a else b)"

fun orEmpty :: "jsval \<Rightarrow> string" where
  "orEmpty (Str s) = s"
| "orEmpty _ = []"

text \<open>
  A JavaScript \<^verbatim>\<open>Map\<close> keeps its entries in insertion order, one per key: an association
  list. \<^verbatim>\<open>set\<close> on a present key replaces the value in place, on a fresh key it
  appends; \<^verbatim>\<open>new Map(entries)\<close> sets the entries one after the other.
\<close>

type_synonym ('k, 'v) jsmap = "('k \<times> 'v) list"

definition Map_has :: "('k, 'v) jsmap \<Rightarrow> 'k \<Rightarrow> bool" where
  "Map_has m k = (k \<in> set (map fst m))"

fun Map_set :: "('k, 'v) jsmap \<Rightarrow> 'k \<Rightarrow> 'v \<Rightarrow> ('k, 'v) jsmap" where
  "Map_set [] k v = [(k, v)]"
| "Map_set ((k', v') # m) k v = (if k' = k then (k, v) # m else (k', v') # Map_set m k v)"

definition Map_size :: "('k, 'v) jsmap \<Rightarrow> nat" where
  "Map_size m = length m"

definition Map_values :: "('k, 'v) jsmap \<Rightarrow> 'v list" where
  "Map_values m = map snd m"

definition Map_new :: "('k \<times> 'v) list \<Rightarrow> ('k, 'v) jsmap" where
  "Map_new entries = foldl (\<lambda>m (k, v). Map_set m k v) [] entries"

text \<open>\<^verbatim>\<open>Number.prototype.toString(radix)\<close> on a non-negative integer.\<close>

function toStringRadix :: "nat \<Rightarrow> nat \<Rightarrow> string" where
  "toStringRadix b n =
     (if b < 2 \<or> n < b then [''0123456789abcdefghijklmnopqrstuvwxyz'' ! n]
      else toStringRadix b (n div b) @ [''0123456789abcdefghijklmnopqrstuvwxyz'' ! (n mod b)])"
  by pat_completeness auto
termination
  by (relation "measure snd") auto

declare toStringRadix.simps [simp del]

text \<open>
  \<^verbatim>\<open>generateUniqueId(url, secondaryId)\<close>: a 32-bit rolling hash
  (\<^verbatim>\<open>hash = ((hash << 5) - hash) + char; hash = hash & hash\<close>) of
  \<^verbatim>\<open>`${url || ''}::${secondaryId || ''}::${Date.now()}`\<close>, printed as
  \<^verbatim>\<open>`tma_${Math.abs(hash).toString(16)}`\<close>. The clock reading \<open>now\<close> is an argument.
\<close>

definition hashStep :: "32 word \<Rightarrow> char \<Rightarrow> 32 word" where
  "hashStep hash c = (push_bit 5 hash - hash) + of_nat (of_char c)"

definition generateUniqueId :: "jsval \<Rightarrow> jsval \<Rightarrow> nat \<Rightarrow> string" where
  "generateUniqueId u secondaryId now =
     (let combinedString = orEmpty u @ ''::'' @ orEmpty secondaryId @ ''::'' @ toStringRadix 10 now;
          hash = foldl hashStep 0 combinedString
      in ''tma_'' @ toStringRadix 16 (nat \<bar>sint hash\<bar>))"

definition startsWith :: "string \<Rightarrow> string \<Rightarrow> bool" where
  "startsWith s p = (take (length p) s = p)"

fun str_includes :: "string \<Rightarrow> string \<Rightarrow> bool" where
  "str_includes [] p = (p = [])"
| "str_includes (c # s) p = (startsWith (c # s) p \<or> str_includes s p)"

definition buildFullUrl :: "jsval \<Rightarrow> string" where
  "buildFullUrl statusLink =
     (if \<not> truthy statusLink then []
      else let link = orEmpty statusLink in
        if startsWith link ''http'' then link
        else if startsWith link ''//'' then ''https:'' @ link
        else ''https://twitter.com'' @ (if startsWith link ''/'' then [] else ''/'') @ link)"

text \<open>
  \<^verbatim>\<open>s.split(sep)\<close> for a separator of one character: the pieces between its
  occurrences, one piece (the empty string) for the empty string.
\<close>

fun str_split :: "string \<Rightarrow> char \<Rightarrow> string list" where
  "str_split [] sep = [[]]"
| "str_split (c # s) sep =
     (if c = sep then [] # str_split s sep
      else (case str_split s sep of [] \<Rightarrow> [[c]] | piece # pieces \<Rightarrow> (c # piece) # pieces))"

text \<open>
  \<^verbatim>\<open>convertDurationToSeconds(durationText)\<close>: the text is stripped of everything but
  digits, colons and dots (\<^verbatim>\<open>replace(/[^\d:\.]/g, '')\<close>), split at the colons, and each
  piece read by \<^verbatim>\<open>parseFloat\<close>. Only the branch for a single piece tests for \<open>NaN\<close>.
\<close>

definition durationChar :: "char \<Rightarrow> bool" where
  "durationChar c = (c \<in> set ''0123456789:.'')"

definition convertDurationToSeconds :: "jsval \<Rightarrow> jsnumber" where
  "convertDurationToSeconds durationText =
     (if \<not> truthy durationText then Num 0
      else
        let normalizedText = filter durationChar (orEmpty durationText);
            parts = map parseFloat (str_split normalizedText CHR '':'')
        in if length parts = 3
           then Math_round (add (add (times (parts ! 0) 3600) (times (parts ! 1) 60)) (parts ! 2))
           else if length parts = 2
           then Math_round (add (times (parts ! 0) 60) (parts ! 1))
           else if length parts = 1 \<and> \<not> isNaN (parts ! 0)
           then Math_round (parts ! 0)
           else Num 0)"

section \<open>Media records, configuration and session state\<close>

text \<open>
  The objects stored in the two caches. Both kinds carry an id, the media \<open>url\<close>, the
  tweet's \<open>fullUrl\<close>, the tweet metadata, the creation time and the scroll pass of their
  discovery; a video adds its poster and duration, an image its dimensions. Fields that
  only feed the display (\<^verbatim>\<open>downloadUrl\<close>, \<^verbatim>\<open>durationText\<close>, \<^verbatim>\<open>previewUrl\<close>) are left out.
  The two fields the caches are trimmed by, \<open>durationSeconds\<close> and \<open>discoveredAtScroll\<close>,
  hold a number, which extraction always writes (the duration may be \<open>NaN\<close> or
  \<open>Infinity\<close>), or nothing: an imported record may lack the property (\<open>None\<close> is
  \<^verbatim>\<open>undefined\<close>). Values of another type, which only an import could bring, are left out.
\<close>

record tweetMetadata =
  username :: string
  displayName :: string
  tweetText :: string
  dateTime :: string
  likes :: jsnumber
  retweets :: jsnumber
  replies :: jsnumber
  views :: jsnumber

record media =
  ident :: jsval
  url :: jsval
  fullUrl :: jsval
  metadata :: tweetMetadata
  timestamp :: nat
  discoveredAtScroll :: "jsnumber option"

record videoData = media +
  thumbnailUrl :: jsval
  durationSeconds :: "jsnumber option"

record imageData = media +
  width :: nat
  height :: nat

record config =
  scrollDelay :: rat
  maxScrollAttempts :: nat
  stabilityThreshold :: nat
  detectVideos :: bool
  detectImages :: bool
  includeReplies :: bool
  includeRetweets :: bool
  maxCacheSize :: nat
  ignorePwaErrors :: bool

record errorCounters =
  pwa :: nat
  api :: nat
  network :: nat
  retryCount :: nat

record state =
  isAnalyzing :: bool
  isProcessing :: bool
  isScrolling :: bool
  scrollCount :: nat
  stabilityCounter :: nat
  startTime :: "nat option"
  endTime :: "nat option"
  videoCache :: "(jsval, videoData) jsmap"
  imageCache :: "(jsval, imageData) jsmap"
  newlyDiscoveredVideos :: nat
  newlyDiscoveredImages :: nat
  lastMediaDiscoveryScroll :: nat
  errors :: errorCounters

section \<open>Logging and the error counters\<close>

text \<open>
  An exception is an \<^verbatim>\<open>Error\<close> object, with its name and its message; its string form
  is that of \<^verbatim>\<open>Error.prototype.toString\<close>.
\<close>

record jsError =
  errorName :: string
  errorMessage :: string

definition errorToString :: "jsError \<Rightarrow> string" where
  "errorToString e =
     (if errorName e = [] then errorMessage e
      else if errorMessage e = [] then errorName e
      else errorName e @ '': '' @ errorMessage e)"

text \<open>\<^verbatim>\<open>shouldIgnoreError(errorString)\<close>, with its list of patterns.\<close>

definition ignoredPatterns :: "string list" where
  "ignoredPatterns =
     [''hasLaunchedPWA'', ''lockdown-install'', ''Removing unpermitted intrinsics'',
      ''strato/column/User'', ''/onboarding/'', ''api/1.1/strato'', ''x.com/i/api'']"

definition shouldIgnoreError :: "string \<Rightarrow> bool" where
  "shouldIgnoreError errorString =
     list_ex (\<lambda>pattern. str_includes (toLowerCase errorString) (toLowerCase pattern)) ignoredPatterns"

text \<open>
  When \<^verbatim>\<open>ignorePwaErrors\<close> is set, the constructor (\<^verbatim>\<open>initializeErrorHandlers\<close>) puts a
  wrapper in the place of \<^verbatim>\<open>console.error\<close>: it joins its arguments with blanks and,
  when the result holds an ignore pattern, adds one to \<^verbatim>\<open>errors.pwa\<close> and prints
  nothing. This is the only write to the error counters in the functions modelled here.
\<close>

fun joinBlank :: "string list \<Rightarrow> string" where
  "joinBlank [] = []"
| "joinBlank [a] = a"
| "joinBlank (a # b # rest) = a @ '' '' @ joinBlank (b # rest)"

definition console_error :: "config \<Rightarrow> string list \<Rightarrow> state \<Rightarrow> state" where
  "console_error cfg args st =
     (if ignorePwaErrors cfg \<and> shouldIgnoreError (joinBlank args)
      then st\<lparr>errors := (errors st)\<lparr>pwa := pwa (errors st) + 1\<rparr>\<rparr>
      else st)"

text \<open>
  \<^verbatim>\<open>log(message, level)\<close>. Only the level \<^verbatim>\<open>'error'\<close> goes to \<^verbatim>\<open>console.error\<close>; the
  other levels go to \<^verbatim>\<open>console.log\<close> and \<^verbatim>\<open>console.warn\<close>, which are not wrapped, and
  \<^verbatim>\<open>updateStatus\<close> writes to the page only. The line handed to \<^verbatim>\<open>console.error\<close> is
  the message behind the prefix \<^verbatim>\<open>%c[TMA \<close>, the time of day and \<^verbatim>\<open>] \<close>, with the colour
  \<^verbatim>\<open>color: #f4212e\<close> as a second argument. The time of day is a locale time string, and
  no pattern lies in the prefix or in the colour or runs across their joints with the
  message: the wrapper's test comes down to the message, and the model hands it the
  message alone.
\<close>

definition logMessage :: "config \<Rightarrow> string \<Rightarrow> string \<Rightarrow> state \<Rightarrow> state" where
  "logMessage cfg message level st = (if level = ''error'' then console_error cfg [message] st else st)"

section \<open>Extraction\<close>

text \<open>
  The selector layer is not modelled: a tweet container is given by what the DOM queries
  of \<^verbatim>\<open>detectMedia\<close>, \<^verbatim>\<open>extractVideoData\<close> and \<^verbatim>\<open>extractImageData\<close> resolve to on it, and
  by whether a DOM access raises and with what exception (\<open>raised\<close>). Of a call of
  \<^verbatim>\<open>log\<close> only the write to \<^verbatim>\<open>errors.pwa\<close> is kept, so calls at other levels than
  \<^verbatim>\<open>'error'\<close> do not appear; UI updates have no effect here; both are taken not to raise.
  The clock readings of \<^verbatim>\<open>Date.now()\<close> are part of the surface. The set \<^verbatim>\<open>domElements\<close>,
  which only feeds the log, is left out of the state.
\<close>

datatype probe = Raises | Absent | Present

record imageSurface =
  imgRaises :: bool
  imgSrc :: string
  imgWidth :: nat
  imgHeight :: nat
  imgNow :: nat
  imgStamp :: nat

record videoSurface =
  vidContainer :: bool
  vidSrc :: jsval
  vidPoster :: jsval
  vidDuration :: jsnumber
  vidTimeLabel :: "jsval option"
  vidThumbnail :: string
  vidNow :: nat
  vidStamp :: nat

record container =
  isReply :: bool
  isRetweet :: bool
  imageProbe :: probe
  videoProbe :: probe
  tweetMeta :: tweetMetadata
  tweetUrl :: jsval
  imageContainers :: "imageSurface list option"
  videoPlayer :: "videoSurface option"
  raised :: jsError

text \<open>
  The duration of a video: \<open>vidDuration\<close> is \<^verbatim>\<open>videoElement.duration\<close> (\<open>NaN\<close> while
  the element has no media data) and 0 without a video element; \<open>vidTimeLabel\<close> is the
  text of the time label, \<^verbatim>\<open>timeElement.textContent || timeElement.getAttribute('datetime')\<close>,
  and \<open>None\<close> without a time label. This is \<^verbatim>\<open>duration = videoElement.duration || 0\<close>
  followed by \<^verbatim>\<open>if (!duration) { ... duration = this.convertDurationToSeconds(durationText) }\<close>.
\<close>

definition durationOf :: "videoSurface \<Rightarrow> jsnumber" where
  "durationOf v =
     (let duration = (if truthyNumber (vidDuration v) then vidDuration v else Num 0)
      in if \<not> truthyNumber duration
         then (case vidTimeLabel v of
                 None \<Rightarrow> duration
               | Some durationText \<Rightarrow> convertDurationToSeconds durationText)
         else duration)"

text \<open>
  \<^verbatim>\<open>extractVideoData(element)\<close>, from the resolved surface on: \<open>vidSrc\<close> and \<open>vidPoster\<close>
  are \<^verbatim>\<open>videoSrc\<close> and \<^verbatim>\<open>posterSrc\<close> after the DOM fallbacks. \<open>None\<close> for the surface
  is a DOM access that raised inside the function's \<^verbatim>\<open>try\<close>: its \<^verbatim>\<open>catch\<close> logs the
  exception at level \<^verbatim>\<open>'error'\<close> and returns 0. The result is the number of videos added
  and the state after the call.
\<close>

definition videoSrcOf :: "container \<Rightarrow> videoSurface \<Rightarrow> jsval" where
  "videoSrcOf element v =
     (if \<not> truthy (vidSrc v) \<and> buildFullUrl (tweetUrl element) \<noteq> []
      then Str (buildFullUrl (tweetUrl element)) else vidSrc v)"

definition posterSrcOf :: "videoSurface \<Rightarrow> jsval" where
  "posterSrcOf v = (if \<not> truthy (vidPoster v) then Str (vidThumbnail v) else vidPoster v)"

definition videoIdOf :: "container \<Rightarrow> videoSurface \<Rightarrow> jsval" where
  "videoIdOf element v =
     Str (generateUniqueId (Str (orEmpty (tweetUrl element)))
            (orElse (videoSrcOf element v) (posterSrcOf v)) (vidNow v))"

definition extractVideoData :: "config \<Rightarrow> container \<Rightarrow> state \<Rightarrow> nat \<times> state" where
  "extractVideoData cfg element st =
     (case videoPlayer element of
        None \<Rightarrow>
          (0, logMessage cfg (''Error extracting video data: '' @ errorMessage (raised element)) ''error'' st)
      | Some v \<Rightarrow>
          if \<not> vidContainer v then (0, st)
          else
            let videoSrc = videoSrcOf element v;
                posterSrc = posterSrcOf v
            in if \<not> truthy videoSrc \<and> \<not> truthy posterSrc then (0, st)
               else
                 let videoId = videoIdOf element v
                 in if Map_has (videoCache st) videoId
                       \<or> list_ex (\<lambda>c. url c = videoSrc) (Map_values (videoCache st))
                    then (0, st)
                    else
                      let videoData = \<lparr>ident = videoId, url = videoSrc,
                                         fullUrl = Str (buildFullUrl (tweetUrl element)),
                                         metadata = tweetMeta element, timestamp = vidStamp v,
                                         discoveredAtScroll = Some (Num (of_nat (scrollCount st))),
                                         thumbnailUrl = posterSrc,
                                         durationSeconds = Some (durationOf v)\<rparr>
                      in (1, st\<lparr>videoCache := Map_set (videoCache st) videoId videoData\<rparr>))"

text \<open>
  The body of the \<^verbatim>\<open>forEach\<close> over the image containers of \<^verbatim>\<open>extractImageData\<close>: it
  works on the state and the running count \<^verbatim>\<open>newImages\<close>. A DOM access that raises is
  caught by the body's own \<^verbatim>\<open>try\<close>, logged as a warning, and the container is skipped.
\<close>

definition skippedImage :: "string \<Rightarrow> bool" where
  "skippedImage imageSrc =
     (imageSrc = []
      \<or> \<not> str_includes imageSrc ''twimg.com''
      \<or> str_includes imageSrc ''video''
      \<or> str_includes imageSrc ''_normal.jpg''
      \<or> str_includes imageSrc ''_bigger.jpg''
      \<or> str_includes imageSrc ''video_thumb''
      \<or> str_includes imageSrc ''amplify_video_thumb''
      \<or> str_includes imageSrc ''semantic_core_img''
      \<or> str_includes imageSrc ''community_banner_img''
      \<or> str_includes imageSrc ''profile_images'')"

definition bestQuality :: "string \<Rightarrow> string" where
  "bestQuality imageSrc =
     (if str_includes imageSrc ''pbs.twimg.com/media/''
      then takeWhile (\<lambda>c. c \<noteq> CHR ''?'') imageSrc @ ''?format=jpg&name=4096x4096''
      else imageSrc)"

definition imageIdOf :: "container \<Rightarrow> imageSurface \<Rightarrow> jsval" where
  "imageIdOf element c =
     Str (generateUniqueId (Str (orEmpty (tweetUrl element))) (Str (bestQuality (imgSrc c))) (imgNow c))"

definition extractImage :: "container \<Rightarrow> imageSurface \<Rightarrow> nat \<times> state \<Rightarrow> nat \<times> state" where
  "extractImage element c acc =
     (let newImages = fst acc; st = snd acc in
      if imgRaises c then acc
      else if skippedImage (imgSrc c) then acc
      else
        let imageSrc = bestQuality (imgSrc c);
            imageId = imageIdOf element c
        in if Map_has (imageCache st) imageId
              \<or> list_ex (\<lambda>i. url i = Str imageSrc) (Map_values (imageCache st))
           then acc
           else
             let imageData = \<lparr>ident = imageId, url = Str imageSrc,
                                fullUrl = Str (buildFullUrl (tweetUrl element)),
                                metadata = tweetMeta element, timestamp = imgStamp c,
                                discoveredAtScroll = Some (Num (of_nat (scrollCount st))),
                                width = imgWidth c, height = imgHeight c\<rparr>
             in (newImages + 1, st\<lparr>imageCache := Map_set (imageCache st) imageId imageData\<rparr>))"

text \<open>
  \<^verbatim>\<open>extractImageData(element)\<close>. \<open>None\<close> for the image containers is a DOM access that
  raised inside the function's \<^verbatim>\<open>try\<close>, outside the loop: the \<^verbatim>\<open>catch\<close> logs the
  exception at level \<^verbatim>\<open>'error'\<close>, prints it once more through \<^verbatim>\<open>console.error\<close>, and
  returns 0.
\<close>

definition extractImageData :: "config \<Rightarrow> container \<Rightarrow> state \<Rightarrow> nat \<times> state" where
  "extractImageData cfg element st =
     (case imageContainers element of
        None \<Rightarrow>
          (0, console_error cfg [''Image extraction error:'', errorToString (raised element)]
                (logMessage cfg (''Error extracting image data: '' @ errorMessage (raised element))
                   ''error'' st))
      | Some cs \<Rightarrow> if length cs = 0 then (0, st) else foldl (\<lambda>acc c. extractImage element c acc) (0, st) cs)"

section \<open>Cache trimming, export and import\<close>

text \<open>
  The comparators of \<^verbatim>\<open>checkCacheSize\<close> subtract two fields,
  \<^verbatim>\<open>(a, b) => b[1].durationSeconds - a[1].durationSeconds\<close>. A missing field reads as
  \<^verbatim>\<open>undefined\<close>, which the subtraction turns into \<open>NaN\<close> (\<open>ToNumber\<close>); a difference with
  a \<open>NaN\<close> operand, and \<open>Infinity - Infinity\<close>, is \<open>NaN\<close>. \<^verbatim>\<open>Array.prototype.sort\<close> reads
  the sign of the comparator's result and takes \<open>NaN\<close> for 0: \<open>minusSign x y\<close> is that
  reading of \<^verbatim>\<open>x - y\<close>. The difference of two doubles is 0 only when they are equal.
\<close>

definition ToNumber :: "jsnumber option \<Rightarrow> jsnumber" where
  "ToNumber v = (case v of None \<Rightarrow> NaN | Some x \<Rightarrow> x)"

fun minusSign :: "jsnumber \<Rightarrow> jsnumber \<Rightarrow> int" where
  "minusSign (Num x) (Num y) = (if x < y then - 1 else if x = y then 0 else 1)"
| "minusSign (Num x) Infinity = - 1"
| "minusSign Infinity (Num y) = 1"
| "minusSign Infinity Infinity = 0"
| "minusSign NaN y = 0"
| "minusSign x NaN = 0"

definition byDuration :: "'k \<times> videoData \<Rightarrow> 'k \<times> videoData \<Rightarrow> int" where
  "byDuration a b = minusSign (ToNumber (durationSeconds (snd b))) (ToNumber (durationSeconds (snd a)))"

definition byDiscovery :: "'k \<times> imageData \<Rightarrow> 'k \<times> imageData \<Rightarrow> int" where
  "byDiscovery a b =
     minusSign (ToNumber (discoveredAtScroll (snd b))) (ToNumber (discoveredAtScroll (snd a)))"

text \<open>
  \<^verbatim>\<open>Array.prototype.sort(comparefn)\<close>. A negative result puts the first argument in
  front, a positive one the second, and on 0 the two keep their order (the sort is
  stable). When the comparator orders the elements consistently, this fixes the sorted
  array. When it does not, as with a \<open>NaN\<close> among the keys, the language leaves the order
  to the implementation; the model is the insertion sort, in which an element moves back
  past the later elements that a comparison puts before it and stops at the first one
  that none does.
\<close>

fun insertSorted :: "('a \<Rightarrow> 'a \<Rightarrow> int) \<Rightarrow> 'a \<Rightarrow> 'a list \<Rightarrow> 'a list" where
  "insertSorted comparefn x [] = [x]"
| "insertSorted comparefn x (y # ys) =
     (if comparefn x y \<le> 0 then x # y # ys else y # insertSorted comparefn x ys)"

definition Array_sort :: "('a \<Rightarrow> 'a \<Rightarrow> int) \<Rightarrow> 'a list \<Rightarrow> 'a list" where
  "Array_sort comparefn xs = foldr (insertSorted comparefn) xs []"

text \<open>
  \<^verbatim>\<open>checkCacheSize\<close>: a cache above the limit is sorted, cut with \<^verbatim>\<open>slice(0, maxCacheSize)\<close>
  and rebuilt. Its two calls of \<^verbatim>\<open>log\<close> are warnings.
\<close>

definition checkCacheSize :: "config \<Rightarrow> state \<Rightarrow> state" where
  "checkCacheSize cfg st =
     (let st1 = (if Map_size (videoCache st) > maxCacheSize cfg
                 then st\<lparr>videoCache :=
                        Map_new (take (maxCacheSize cfg) (Array_sort byDuration (videoCache st)))\<rparr>
                 else st)
      in if Map_size (imageCache st1) > maxCacheSize cfg
         then st1\<lparr>imageCache :=
                Map_new (take (maxCacheSize cfg) (Array_sort byDiscovery (imageCache st1)))\<rparr>
         else st1)"

text \<open>
  The export file and the import payload: \<^verbatim>\<open>{videos, images, stats}\<close>. A sequence that
  is missing from a payload (or is another falsy value) is \<open>None\<close>; the items of a sequence
  are record objects. A count missing from \<^verbatim>\<open>stats\<close> reads as 0, as \<^verbatim>\<open>|| 0\<close> makes it.
  \<^verbatim>\<open>exportDate\<close> is left out.
\<close>

record stats =
  totalVideos :: nat
  totalImages :: nat
  totalMedia :: nat
  statsScrollCount :: nat
  statsNewlyDiscoveredVideos :: nat
  statsNewlyDiscoveredImages :: nat

record payload =
  videos :: "videoData list option"
  images :: "imageData list option"
  stats :: "stats option"

definition exportDataAsJson :: "state \<Rightarrow> payload" where
  "exportDataAsJson st =
     (let vs = Map_values (videoCache st); is = Map_values (imageCache st)
      in \<lparr>videos = Some vs, images = Some is,
          stats = Some \<lparr>totalVideos = length vs, totalImages = length is,
                         totalMedia = length vs + length is,
                         statsScrollCount = scrollCount st,
                         statsNewlyDiscoveredVideos = newlyDiscoveredVideos st,
                         statsNewlyDiscoveredImages = newlyDiscoveredImages st\<rparr>\<rparr>)"

datatype error = Error string

record importResult =
  videosAdded :: nat
  imagesAdded :: nat
  videosSkipped :: nat
  imagesSkipped :: nat
  totalProcessed :: nat

text \<open>
  One of the two \<^verbatim>\<open>for ... of\<close> loops of \<^verbatim>\<open>importJsonData\<close>, over videos or over
  images. An item without an id is given one, in the payload object itself; \<open>now k\<close> is
  the clock reading while item \<open>k\<close> of the payload is handled. The loop returns the cache,
  the counts of added and skipped items, and the items as the loop leaves them.
\<close>

fun importItems :: "bool \<Rightarrow> (nat \<Rightarrow> nat) \<Rightarrow> nat \<Rightarrow> 'a media_scheme list
    \<Rightarrow> (jsval, 'a media_scheme) jsmap \<Rightarrow> nat \<Rightarrow> nat
    \<Rightarrow> (jsval, 'a media_scheme) jsmap \<times> nat \<times> nat \<times> 'a media_scheme list" where
  "importItems replace now k [] cache added skipped = (cache, added, skipped, [])"
| "importItems replace now k (item # rest) cache added skipped =
     (let item' = (if \<not> truthy (ident item)
                   then item\<lparr>ident := Str (generateUniqueId (Str (orEmpty (url item)))
                                                (Str (orEmpty (fullUrl item))) (now k))\<rparr>
                   else item)
      in if \<not> replace \<and> Map_has cache (ident item')
         then (case importItems replace now (Suc k) rest cache added (skipped + 1) of
                 (c, a, s, items) \<Rightarrow> (c, a, s, item' # items))
         else (case importItems replace now (Suc k) rest (Map_set cache (ident item') item') (added + 1) skipped of
                 (c, a, s, items) \<Rightarrow> (c, a, s, item' # items)))"

text \<open>
  \<^verbatim>\<open>importJsonData(jsonInput, replace)\<close> on the parsed payload. The result is the outcome
  (the rejection's \<^verbatim>\<open>Error\<close>, or the payload as the loops left it with the result
  summary) and the state after the call. The \<^verbatim>\<open>catch\<close> logs the exception at level
  \<^verbatim>\<open>'error'\<close> and throws it again.
\<close>

definition importFailed :: "config \<Rightarrow> string \<Rightarrow> state \<Rightarrow> (error + payload \<times> importResult) \<times> state" where
  "importFailed cfg message st =
     (Inl (Error message), logMessage cfg (''Error importing JSON: '' @ message) ''error'' st)"

definition importJsonData :: "config \<Rightarrow> bool \<Rightarrow> (nat \<Rightarrow> nat) \<Rightarrow> payload \<Rightarrow> state
    \<Rightarrow> (error + payload \<times> importResult) \<times> state" where
  "importJsonData cfg replace now importData st =
     (case videos importData of
        None \<Rightarrow> importFailed cfg ''Invalid JSON format. Missing videos or images data.'' st
      | Some vs \<Rightarrow>
     (case images importData of
        None \<Rightarrow> importFailed cfg ''Invalid JSON format. Missing videos or images data.'' st
      | Some is \<Rightarrow>
          let st1 = (if replace then st\<lparr>videoCache := [], imageCache := []\<rparr> else st)
          in case importItems replace now 0 vs (videoCache st1) 0 0 of (vc, va, vsk, vs') \<Rightarrow>
             case importItems replace now (length vs) is (imageCache st1) 0 0 of (ic, ia, isk, is') \<Rightarrow>
             let st2 = st1\<lparr>videoCache := vc, imageCache := ic\<rparr>;
                 st3 = (case stats importData of
                          None \<Rightarrow> st2
                        | Some s \<Rightarrow>
                            if \<not> replace
                            then st2\<lparr>newlyDiscoveredVideos := newlyDiscoveredVideos st2 + statsNewlyDiscoveredVideos s,
                                     newlyDiscoveredImages := newlyDiscoveredImages st2 + statsNewlyDiscoveredImages s\<rparr>
                            else st2\<lparr>newlyDiscoveredVideos := statsNewlyDiscoveredVideos s,
                                     newlyDiscoveredImages := statsNewlyDiscoveredImages s,
                                     scrollCount := statsScrollCount s\<rparr>)
             in (Inr (importData\<lparr>videos := Some vs', images := Some is'\<rparr>,
                      \<lparr>videosAdded = va, imagesAdded = ia, videosSkipped = vsk, imagesSkipped = isk,
                       totalProcessed = length vs + length is\<rparr>),
                 st3)))"

section \<open>The detection pass\<close>

text \<open>
  The \<^verbatim>\<open>try\<close> block of the \<^verbatim>\<open>forEach\<close> callback of \<^verbatim>\<open>detectMedia\<close>, on one tweet
  container. It works on the state and on \<^verbatim>\<open>newVideosCount\<close> and \<^verbatim>\<open>newImagesCount\<close>.
  \<open>Inl\<close> is an exception leaving the block (a probe of the container raised), with what
  had been done before it; \<open>Inr\<close> is normal completion. The extractors catch their own
  exceptions, log them and return 0.
\<close>

definition tryContainer :: "config \<Rightarrow> container \<Rightarrow> state \<times> nat \<times> nat
    \<Rightarrow> (state \<times> nat \<times> nat) + (state \<times> nat \<times> nat)" where
  "tryContainer cfg c acc =
     (case acc of (st, newVideosCount, newImagesCount) \<Rightarrow>
        if \<not> includeReplies cfg \<and> isReply c then Inr acc
        else if \<not> includeRetweets cfg \<and> isRetweet c then Inr acc
        else
          case (if detectImages cfg
                then (case imageProbe c of
                        Raises \<Rightarrow> Inl acc
                      | Absent \<Rightarrow> Inr acc
                      | Present \<Rightarrow>
                          (case extractImageData cfg c st of
                             (newImages, st') \<Rightarrow> Inr (st', newVideosCount, newImagesCount + newImages)))
                else Inr acc) of
            Inl a \<Rightarrow> Inl a
          | Inr (st1, nv1, ni1) \<Rightarrow>
              if detectVideos cfg
              then (case videoProbe c of
                      Raises \<Rightarrow> Inl (st1, nv1, ni1)
                    | Absent \<Rightarrow> Inr (st1, nv1, ni1)
                    | Present \<Rightarrow>
                        (case extractVideoData cfg c st1 of
                           (newVideos, st2) \<Rightarrow> Inr (st2, nv1 + newVideos, ni1)))
              else Inr (st1, nv1, ni1))"

text \<open>
  The callback with its \<^verbatim>\<open>catch (containerError)\<close>, which logs a warning and nothing
  else: the \<^verbatim>\<open>forEach\<close> goes on with the next container.
\<close>

definition processContainer :: "config \<Rightarrow> container \<Rightarrow> state \<times> nat \<times> nat \<Rightarrow> state \<times> nat \<times> nat" where
  "processContainer cfg c acc = (case tryContainer cfg c acc of Inl a \<Rightarrow> a | Inr a \<Rightarrow> a)"

record detection =
  newVideos :: nat
  newImages :: nat

text \<open>
  \<^verbatim>\<open>detectMedia()\<close>. \<open>document\<close> is the list of tweet containers the document holds
  (\<open>Inr\<close>), or the exception that enumerating them raises (\<open>Inl\<close>), which the outer
  \<^verbatim>\<open>catch\<close> logs at level \<^verbatim>\<open>'error'\<close> and turns into the result
  \<^verbatim>\<open>{ newVideos: 0, newImages: 0 }\<close>.
\<close>

definition detectMedia :: "config \<Rightarrow> jsError + container list \<Rightarrow> state \<Rightarrow> detection \<times> state" where
  "detectMedia cfg document st =
     (case document of
        Inl error \<Rightarrow>
          (\<lparr>newVideos = 0, newImages = 0\<rparr>,
           logMessage cfg (''Error detecting media: '' @ errorMessage error) ''error'' st)
      | Inr tweetContainers \<Rightarrow>
          if length tweetContainers = 0 then (\<lparr>newVideos = 0, newImages = 0\<rparr>, st)
          else
            case foldl (\<lambda>acc c. processContainer cfg c acc) (st, 0, 0) tweetContainers of
              (st', newVideosCount, newImagesCount) \<Rightarrow>
                (\<lparr>newVideos = newVideosCount, newImages = newImagesCount\<rparr>,
                 st'\<lparr>newlyDiscoveredVideos := newlyDiscoveredVideos st' + newVideosCount,
                     newlyDiscoveredImages := newlyDiscoveredImages st' + newImagesCount\<rparr>))"

section \<open>The scroll loop\<close>

definition stop :: "state \<Rightarrow> state" where
  "stop st = st\<lparr>isAnalyzing := False, isScrolling := False, isProcessing := False\<rparr>"

text \<open>
  What one iteration of \<^verbatim>\<open>scrollStep\<close> meets: whether \<^verbatim>\<open>window.scrollBy\<close> raises and with
  what exception, whether a stop command arrives during the wait before detection (the
  loop's only suspension point), and the tweet containers in the document when detection
  runs.
\<close>

record scrollEnv =
  scrollRaises :: bool
  scrollError :: jsError

record passEnv = scrollEnv +
  stopRequested :: bool
  documentAtDetection :: "jsError + container list"

text \<open>
  The status line the loop logs after each detection:
  \<^verbatim>\<open>Scroll ${scrollCount}: Found ${newMediaFound} new media items\<close> with the stability
  counter as it stands after the update.
\<close>

record passLog =
  logScroll :: nat
  logNewMedia :: int
  logStability :: nat

datatype stopReason = Stopped | MaxAttempts | Stabilized | CriticalError

text \<open>The stability update of the \<^verbatim>\<open>setTimeout\<close> callback.\<close>

definition stabilityUpdate :: "int \<Rightarrow> state \<Rightarrow> state" where
  "stabilityUpdate newMediaFound st =
     (if newMediaFound > 0
      then st\<lparr>lastMediaDiscoveryScroll := scrollCount st, stabilityCounter := 0\<rparr>
      else st\<lparr>stabilityCounter := stabilityCounter st + 1\<rparr>)"

text \<open>
  The wait and the callback up to the stability update: a stop command may have arrived,
  \<^verbatim>\<open>detectMedia\<close> runs, and \<^verbatim>\<open>newMediaFound\<close> is the growth of the two caches since the
  counts taken before the scroll.
\<close>

definition passDetect :: "config \<Rightarrow> passEnv \<Rightarrow> nat \<Rightarrow> nat \<Rightarrow> state \<Rightarrow> int \<times> state" where
  "passDetect cfg e videosCountBefore imagesCountBefore st =
     (let st2 = (if stopRequested e then stop st else st);
          st3 = snd (detectMedia cfg (documentAtDetection e) st2);
          newVideosFound = int (Map_size (videoCache st3)) - int videosCountBefore;
          newImagesFound = int (Map_size (imageCache st3)) - int imagesCountBefore;
          newMediaFound = newVideosFound + newImagesFound
      in (newMediaFound, stabilityUpdate newMediaFound st3))"

text \<open>
  The two error-level lines of the loop: a failed scroll, with the number of the attempt,
  and the critical error that the fifth failure in a row is thrown as.
\<close>

definition scrollErrorLogged :: "config \<Rightarrow> jsError \<Rightarrow> nat \<Rightarrow> state \<Rightarrow> state" where
  "scrollErrorLogged cfg err consecutiveErrors st =
     logMessage cfg (''Scroll error (attempt '' @ toStringRadix 10 consecutiveErrors @ ''): ''
                     @ errorMessage err) ''error'' st"

definition criticalErrorLogged :: "config \<Rightarrow> jsError \<Rightarrow> state \<Rightarrow> state" where
  "criticalErrorLogged cfg err st =
     logMessage cfg (''Critical error during scrolling: Multiple scroll errors: ''
                     @ errorMessage err) ''error'' st"

text \<open>
  What logging, the extractors and a detection pass leave alone: the flags and counters
  of the session. The loop below terminates because of it.
\<close>

definition sameSession :: "state \<Rightarrow> state \<Rightarrow> bool" where
  "sameSession s t \<longleftrightarrow> isAnalyzing t = isAnalyzing s \<and> isProcessing t = isProcessing s
     \<and> isScrolling t = isScrolling s \<and> scrollCount t = scrollCount s
     \<and> stabilityCounter t = stabilityCounter s \<and> startTime t = startTime s \<and> endTime t = endTime s
     \<and> lastMediaDiscoveryScroll t = lastMediaDiscoveryScroll s"

lemma sameSession_refl: "sameSession s s"
  by (simp add: sameSession_def)

lemma sameSession_trans: "sameSession s t \<Longrightarrow> sameSession t u \<Longrightarrow> sameSession s u"
  by (simp add: sameSession_def)

lemma console_error_frame: "sameSession st (console_error cfg args st)"
  by (simp add: console_error_def sameSession_def)

lemma logMessage_frame: "sameSession st (logMessage cfg message level st)"
  by (simp add: logMessage_def console_error_frame sameSession_refl)

lemma extractVideoData_frame: "sameSession st (snd (extractVideoData cfg c st))"
proof (cases "videoPlayer c")
  case None
  then show ?thesis by (simp add: extractVideoData_def logMessage_frame)
next
  case (Some v)
  then show ?thesis by (simp add: extractVideoData_def sameSession_def Let_def)
qed

lemma extractImage_frame: "sameSession (snd acc) (snd (extractImage c i acc))"
  by (simp add: extractImage_def sameSession_def Let_def)

lemma extractImage_fold_frame:
  "sameSession (snd acc) (snd (foldl (\<lambda>acc i. extractImage c i acc) acc is))"
proof (induction "is" arbitrary: acc)
  case Nil
  show ?case by (simp add: sameSession_refl)
next
  case (Cons i "is")
  show ?case using sameSession_trans[OF extractImage_frame Cons] by simp
qed

lemma extractImageData_frame: "sameSession st (snd (extractImageData cfg c st))"
proof (cases "imageContainers c")
  case None
  then show ?thesis
    using sameSession_trans[OF logMessage_frame console_error_frame]
    by (simp add: extractImageData_def)
next
  case (Some cs)
  then show ?thesis
    using extractImage_fold_frame[of "(0, st)"]
    by (simp add: extractImageData_def sameSession_refl)
qed

lemma tryContainer_frame:
  "sameSession (fst acc) (fst (case tryContainer cfg c acc of Inl a \<Rightarrow> a | Inr a \<Rightarrow> a))"
proof -
  obtain st nv ni where acc: "acc = (st, nv, ni)" by (cases acc)
  obtain n1 st1 where i: "extractImageData cfg c st = (n1, st1)" by (cases "extractImageData cfg c st")
  have s1: "sameSession st st1" using extractImageData_frame[of st cfg c] by (simp add: i)
  have v: "\<And>s. sameSession s (snd (extractVideoData cfg c s))" by (rule extractVideoData_frame)
  have v0: "sameSession st (snd (extractVideoData cfg c st))" by (rule v)
  have v1: "sameSession st (snd (extractVideoData cfg c st1))" by (rule sameSession_trans[OF s1 v])
  show ?thesis
    using s1 v0 v1
    by (simp add: tryContainer_def acc i sameSession_refl split_beta split: probe.splits)
qed

lemma processContainer_frame: "sameSession (fst acc) (fst (processContainer cfg c acc))"
  using tryContainer_frame by (simp add: processContainer_def)

lemma processContainer_fold_frame:
  "sameSession (fst acc) (fst (foldl (\<lambda>acc c. processContainer cfg c acc) acc cs))"
proof (induction cs arbitrary: acc)
  case Nil
  show ?case by (simp add: sameSession_refl)
next
  case (Cons c cs)
  show ?case using sameSession_trans[OF processContainer_frame Cons] by simp
qed

lemma detectMedia_frame: "sameSession st (snd (detectMedia cfg document st))"
proof (cases document)
  case (Inl error)
  then show ?thesis by (simp add: detectMedia_def logMessage_frame)
next
  case (Inr cs)
  have "sameSession st (fst (foldl (\<lambda>acc c. processContainer cfg c acc) (st, 0, 0) cs))"
    using processContainer_fold_frame[of "(st, 0, 0)"] by simp
  then show ?thesis
    by (simp add: detectMedia_def Inr sameSession_def split_beta)
qed

lemma passDetect_scrollCount: "scrollCount (snd (passDetect cfg e vb ib st)) = scrollCount st"
  using detectMedia_frame[of "if stopRequested e then stop st else st" cfg "documentAtDetection e"]
  by (simp add: passDetect_def stabilityUpdate_def sameSession_def stop_def Let_def)

lemma checkCacheSize_scrollCount: "scrollCount (checkCacheSize cfg st) = scrollCount st"
  by (simp add: checkCacheSize_def Let_def)

lemma scrollErrorLogged_frame: "sameSession st (scrollErrorLogged cfg e n st)"
  by (simp add: scrollErrorLogged_def logMessage_frame)

lemma criticalErrorLogged_frame: "sameSession st (criticalErrorLogged cfg e st)"
  by (simp add: criticalErrorLogged_def logMessage_frame)

text \<open>
  \<^verbatim>\<open>scrollStep\<close>, the loop of \<^verbatim>\<open>infiniteScroll\<close>, in a run that no other run of the loop
  shares the state with: \<open>k\<close> counts its iterations, \<open>env k\<close> is what iteration \<open>k\<close>
  meets, \<open>currentDelay\<close> and \<open>consecutiveErrors\<close> are the loop's local variables. The
  result is the state when the promise resolves, why the loop ended, and the status lines
  it logged.
\<close>

function scrollStep :: "config \<Rightarrow> (nat \<Rightarrow> passEnv) \<Rightarrow> nat \<Rightarrow> rat \<Rightarrow> nat \<Rightarrow> state
    \<Rightarrow> state \<times> stopReason \<times> passLog list" where
  "scrollStep cfg env k currentDelay consecutiveErrors st =
     (if \<not> isScrolling st then (st, Stopped, [])
      else if scrollCount st \<ge> maxScrollAttempts cfg then (st\<lparr>isScrolling := False\<rparr>, MaxAttempts, [])
      else if scrollRaises (env k) \<and> consecutiveErrors + 1 \<ge> 5
        then ((criticalErrorLogged cfg (scrollError (env k))
                 (scrollErrorLogged cfg (scrollError (env k)) (consecutiveErrors + 1) st))
                \<lparr>isScrolling := False\<rparr>, CriticalError, [])
      else
        let st1 = (if scrollRaises (env k)
                   then scrollErrorLogged cfg (scrollError (env k)) (consecutiveErrors + 1) st
                   else st\<lparr>scrollCount := scrollCount st + 1\<rparr>);
            errs = (if scrollRaises (env k) then consecutiveErrors + 1 else 0);
            delay = (if scrollRaises (env k) then min (currentDelay * (3 / 2)) 10000 else scrollDelay cfg);
            detected = passDetect cfg (env k) (Map_size (videoCache st)) (Map_size (imageCache st)) st1;
            st4 = snd detected;
            entry = \<lparr>logScroll = scrollCount st4, logNewMedia = fst detected,
                     logStability = stabilityCounter st4\<rparr>
        in if stabilityCounter st4 \<ge> stabilityThreshold cfg
           then (st4\<lparr>isScrolling := False\<rparr>, Stabilized, [entry])
           else case scrollStep cfg env (k + 1) delay errs (checkCacheSize cfg st4) of
                  (st', reason, logs) \<Rightarrow> (st', reason, entry # logs))"
  by pat_completeness auto
termination
proof (relation "measures [\<lambda>(cfg, env, k, d, ce, st). maxScrollAttempts cfg - scrollCount st,
                           \<lambda>(cfg, env, k, d, ce, st). 5 - ce]")
  show "wf (measures [\<lambda>(cfg, env, k, d, ce, st). maxScrollAttempts cfg - scrollCount st,
                      \<lambda>(cfg, env, k, d, ce, st). 5 - ce])"
    by simp
next
  fix cfg :: config and env :: "nat \<Rightarrow> passEnv" and k :: nat and currentDelay :: rat
    and consecutiveErrors :: nat and st st1 :: state and errs :: nat and delay :: rat
    and detected :: "int \<times> state" and st4 :: state and entry :: passLog
  assume a: "\<not> \<not> isScrolling st" "\<not> maxScrollAttempts cfg \<le> scrollCount st"
    "\<not> (scrollRaises (env k) \<and> 5 \<le> consecutiveErrors + 1)"
    and st1: "st1 = (if scrollRaises (env k)
                     then scrollErrorLogged cfg (scrollError (env k)) (consecutiveErrors + 1) st
                     else st\<lparr>scrollCount := scrollCount st + 1\<rparr>)"
    and errs: "errs = (if scrollRaises (env k) then consecutiveErrors + 1 else 0)"
    and d: "detected = passDetect cfg (env k) (Map_size (videoCache st)) (Map_size (imageCache st)) st1"
    and st4: "st4 = snd detected"
  have "scrollCount (checkCacheSize cfg st4) = scrollCount st1"
    by (simp add: st4 d checkCacheSize_scrollCount passDetect_scrollCount)
  moreover have "scrollCount (scrollErrorLogged cfg (scrollError (env k)) (consecutiveErrors + 1) st)
      = scrollCount st"
    using scrollErrorLogged_frame[of st cfg] by (simp add: sameSession_def)
  ultimately show "((cfg, env, k + 1, delay, errs, checkCacheSize cfg st4),
              cfg, env, k, currentDelay, consecutiveErrors, st)
        \<in> measures [\<lambda>(cfg, env, k, d, ce, st). maxScrollAttempts cfg - scrollCount st,
                      \<lambda>(cfg, env, k, d, ce, st). 5 - ce]"
    using a by (auto simp: st1 errs)
qed

declare scrollStep.simps [simp del]

text \<open>\<^verbatim>\<open>infiniteScroll()\<close>: three assignments, then the loop.\<close>

definition infiniteScroll :: "config \<Rightarrow> (nat \<Rightarrow> passEnv) \<Rightarrow> state \<Rightarrow> state \<times> stopReason \<times> passLog list" where
  "infiniteScroll cfg env st =
     scrollStep cfg env 0 (scrollDelay cfg) 0
       (st\<lparr>isScrolling := True, scrollCount := 0, stabilityCounter := 0\<rparr>)"

section \<open>Commands and timers\<close>

text \<open>
  In the browser the loop is a chain of timer callbacks. \<^verbatim>\<open>scrollStep()\<close> runs up to its
  \<^verbatim>\<open>setTimeout\<close> and returns; the callback runs when the timer fires, and calls
  \<^verbatim>\<open>scrollStep()\<close> again. A start or stop command is handled between two such steps,
  never inside one: the steps have no \<^verbatim>\<open>await\<close>. A pending timer holds the variables
  its callback closes over: the two counts taken before the scroll, and \<^verbatim>\<open>currentDelay\<close>
  and \<^verbatim>\<open>consecutiveErrors\<close> of its call of \<^verbatim>\<open>infiniteScroll\<close>.
\<close>

record timer =
  timerVideosBefore :: nat
  timerImagesBefore :: nat
  timerDelay :: rat
  timerErrors :: nat

text \<open>
  \<^verbatim>\<open>scrollStep()\<close> from its entry to its return: the promise is resolved (\<open>Inl\<close>, with
  the reason), or a timer is set (\<open>Inr\<close>).
\<close>

definition scrollStepEntry :: "config \<Rightarrow> 'a scrollEnv_scheme \<Rightarrow> rat \<Rightarrow> nat \<Rightarrow> state
    \<Rightarrow> state \<times> (stopReason + timer)" where
  "scrollStepEntry cfg e currentDelay consecutiveErrors st =
     (if \<not> isScrolling st then (st, Inl Stopped)
      else if scrollCount st \<ge> maxScrollAttempts cfg then (st\<lparr>isScrolling := False\<rparr>, Inl MaxAttempts)
      else if scrollRaises e \<and> consecutiveErrors + 1 \<ge> 5
        then ((criticalErrorLogged cfg (scrollError e)
                 (scrollErrorLogged cfg (scrollError e) (consecutiveErrors + 1) st))
                \<lparr>isScrolling := False\<rparr>, Inl CriticalError)
      else
        (if scrollRaises e
         then scrollErrorLogged cfg (scrollError e) (consecutiveErrors + 1) st
         else st\<lparr>scrollCount := scrollCount st + 1\<rparr>,
         Inr \<lparr>timerVideosBefore = Map_size (videoCache st),
              timerImagesBefore = Map_size (imageCache st),
              timerDelay = (if scrollRaises e then min (currentDelay * (3 / 2)) 10000 else scrollDelay cfg),
              timerErrors = (if scrollRaises e then consecutiveErrors + 1 else 0)\<rparr>))"

text \<open>
  The callback of the timer up to the test of the stability counter: detection, the
  count of new media against the counts the timer holds, the stability update. It returns
  the status line and the state.
\<close>

definition timerCallback :: "config \<Rightarrow> jsError + container list \<Rightarrow> timer \<Rightarrow> state \<Rightarrow> passLog \<times> state" where
  "timerCallback cfg document t st =
     (let st3 = snd (detectMedia cfg document st);
          newVideosFound = int (Map_size (videoCache st3)) - int (timerVideosBefore t);
          newImagesFound = int (Map_size (imageCache st3)) - int (timerImagesBefore t);
          newMediaFound = newVideosFound + newImagesFound;
          st4 = stabilityUpdate newMediaFound st3
      in (\<lparr>logScroll = scrollCount st4, logNewMedia = newMediaFound,
           logStability = stabilityCounter st4\<rparr>, st4))"

text \<open>
  \<^verbatim>\<open>startAnalysis()\<close> behind its \<^verbatim>\<open>await this.infiniteScroll()\<close>, with the \<^verbatim>\<open>finally\<close>
  block. It runs as soon as the step that resolved the promise has returned, before any
  other command or timer. \<open>now\<close> is the reading of \<^verbatim>\<open>performance.now()\<close>.
\<close>

definition afterInfiniteScroll :: "nat \<Rightarrow> state \<Rightarrow> state" where
  "afterInfiniteScroll now st =
     (if \<not> isScrolling st then st\<lparr>isProcessing := False, isScrolling := False\<rparr>
      else st\<lparr>endTime := Some now, isProcessing := False, isScrolling := False\<rparr>)"

text \<open>
  The analyzer between two steps: its state and the timers that are pending, in the
  order they were set.
\<close>

record session =
  analyzer :: state
  pending :: "timer list"

text \<open>A call of \<^verbatim>\<open>scrollStep()\<close> and what follows from its outcome.\<close>

definition enterScrollStep :: "config \<Rightarrow> scrollEnv \<Rightarrow> nat \<Rightarrow> rat \<Rightarrow> nat \<Rightarrow> session \<Rightarrow> session" where
  "enterScrollStep cfg e now currentDelay consecutiveErrors s =
     (case scrollStepEntry cfg e currentDelay consecutiveErrors (analyzer s) of
        (st, Inl reason) \<Rightarrow> s\<lparr>analyzer := afterInfiniteScroll now st\<rparr>
      | (st, Inr t) \<Rightarrow> s\<lparr>analyzer := st, pending := pending s @ [t]\<rparr>)"

text \<open>
  \<^verbatim>\<open>startAnalysis()\<close> up to its \<^verbatim>\<open>await\<close>, and \<^verbatim>\<open>start()\<close>. The environment of a start
  gives the readings of \<^verbatim>\<open>performance.now()\<close>, whether the page is Twitter/X, and the
  document at the initial detection; \<open>e\<close> is what the first scroll meets.
  \<^verbatim>\<open>infiniteScroll()\<close> is its three assignments and the first call of \<^verbatim>\<open>scrollStep()\<close>.
\<close>

record startEnv =
  nowAtStart :: nat
  nowAtEnd :: nat
  onTwitter :: bool
  initialDocument :: "jsError + container list"

definition startAnalysis :: "config \<Rightarrow> startEnv \<Rightarrow> scrollEnv \<Rightarrow> session \<Rightarrow> session" where
  "startAnalysis cfg se e s =
     (let st = analyzer s in
      if isProcessing st then s\<lparr>analyzer := st\<lparr>isScrolling := False, isProcessing := False\<rparr>\<rparr>
      else
        let st1 = st\<lparr>isProcessing := True, isScrolling := True,
                     startTime := (if startTime st = None \<or> startTime st = Some 0
                                   then Some (nowAtStart se) else startTime st)\<rparr>
        in if \<not> onTwitter se then s\<lparr>analyzer := st1\<lparr>isProcessing := False, isScrolling := False\<rparr>\<rparr>
           else
             let st2 = snd (detectMedia cfg (initialDocument se) st1);
                 st3 = st2\<lparr>isScrolling := True, scrollCount := 0, stabilityCounter := 0\<rparr>
             in enterScrollStep cfg e (nowAtEnd se) (scrollDelay cfg) 0 (s\<lparr>analyzer := st3\<rparr>))"

definition start :: "config \<Rightarrow> startEnv \<Rightarrow> scrollEnv \<Rightarrow> session \<Rightarrow> session" where
  "start cfg se e s = startAnalysis cfg se e (s\<lparr>analyzer := (analyzer s)\<lparr>isAnalyzing := True\<rparr>\<rparr>)"

text \<open>
  The timer at place \<open>i\<close> of the pending ones fires: its callback runs on \<open>document\<close>,
  and either ends the loop on stability or trims the caches and calls \<^verbatim>\<open>scrollStep()\<close>,
  which meets \<open>e\<close>.
\<close>

definition timerFires :: "config \<Rightarrow> nat \<Rightarrow> jsError + container list \<Rightarrow> scrollEnv \<Rightarrow> nat
    \<Rightarrow> session \<Rightarrow> session" where
  "timerFires cfg i document e now s =
     (if i \<ge> length (pending s) then s
      else
        let t = pending s ! i;
            others = take i (pending s) @ drop (Suc i) (pending s);
            st4 = snd (timerCallback cfg document t (analyzer s))
        in if stabilityCounter st4 \<ge> stabilityThreshold cfg
           then \<lparr>analyzer = afterInfiniteScroll now (st4\<lparr>isScrolling := False\<rparr>), pending = others\<rparr>
           else enterScrollStep cfg e now (timerDelay t) (timerErrors t)
                  \<lparr>analyzer = checkCacheSize cfg st4, pending = others\<rparr>)"

text \<open>The steps of a session, and a session run through a list of them.\<close>

datatype event =
    StartCommand startEnv scrollEnv
  | StopCommand
  | TimerFires nat "jsError + container list" scrollEnv nat

fun step :: "config \<Rightarrow> event \<Rightarrow> session \<Rightarrow> session" where
  "step cfg (StartCommand se e) s = start cfg se e s"
| "step cfg StopCommand s = s\<lparr>analyzer := stop (analyzer s)\<rparr>"
| "step cfg (TimerFires i document e now) s = timerFires cfg i document e now s"

definition run :: "config \<Rightarrow> event list \<Rightarrow> session \<Rightarrow> session" where
  "run cfg events s = foldl (\<lambda>s ev. step cfg ev s) s events"

section \<open>Relations used in the proofs\<close>

text \<open>
  \<^verbatim>\<open>x >= y\<close> on numbers (false when either is \<open>NaN\<close>), and the events that are the firing
  of a timer.
\<close>

fun notSmaller :: "jsnumber \<Rightarrow> jsnumber \<Rightarrow> bool" where
  "notSmaller (Num x) (Num y) = (y \<le> x)"
| "notSmaller Infinity (Num y) = True"
| "notSmaller Infinity Infinity = True"
| "notSmaller (Num x) Infinity = False"
| "notSmaller NaN y = False"
| "notSmaller x NaN = False"

fun isTimerFires :: "event \<Rightarrow> bool" where
  "isTimerFires (TimerFires i document e now) = True"
| "isTimerFires _ = False"

text \<open>
  What a step can do to the error counters: \<open>pwa\<close> may grow, and only when the wrapper
  of \<^verbatim>\<open>console.error\<close> is installed; the others stay.
\<close>

definition pwaOnly :: "config \<Rightarrow> state \<Rightarrow> state \<Rightarrow> bool" where
  "pwaOnly cfg s t \<longleftrightarrow> api (errors t) = api (errors s) \<and> network (errors t) = network (errors s)
     \<and> retryCount (errors t) = retryCount (errors s) \<and> pwa (errors s) \<le> pwa (errors t)
     \<and> (\<not> ignorePwaErrors cfg \<longrightarrow> pwa (errors t) = pwa (errors s))"

text \<open>The counts a pass returns are the growth of the caches.\<close>

definition grown :: "state \<Rightarrow> nat \<Rightarrow> nat \<Rightarrow> state \<Rightarrow> bool" where
  "grown s nv ni t \<longleftrightarrow> Map_size (videoCache t) = Map_size (videoCache s) + nv
                      \<and> Map_size (imageCache t) = Map_size (imageCache s) + ni"

text \<open>Extraction only appends to the caches.\<close>

definition extended :: "state \<Rightarrow> state \<Rightarrow> bool" where
  "extended s t \<longleftrightarrow> (\<exists>vs. videoCache t = videoCache s @ vs) \<and> (\<exists>is. imageCache t = imageCache s @ is)"

text \<open>
  The rule the status lines of a run follow, from a counter value \<open>c\<close> on: each line's
  counter is 0 after new media and one more than the last otherwise, and the run ends on
  stability at the first line whose counter reaches the threshold \<open>T\<close>.
\<close>

fun stabilityRule :: "nat \<Rightarrow> nat \<Rightarrow> passLog list \<Rightarrow> stopReason \<Rightarrow> bool" where
  "stabilityRule T c [] reason = (reason \<noteq> Stabilized)"
| "stabilityRule T c (l # logs) reason =
     (logStability l = (if logNewMedia l > 0 then 0 else c + 1)
      \<and> (if logStability l \<ge> T then logs = [] \<and> reason = Stabilized
          else stabilityRule T (logStability l) logs reason))"

section \<open>Sample data\<close>

text \<open>
  The state the constructor builds, the metadata object \<^verbatim>\<open>extractTweetMetadata\<close> starts
  from, the exception of a failed DOM access, and one tweet with a video and a photo.
\<close>

definition emptyMetadata :: tweetMetadata where
  "emptyMetadata = \<lparr>username = [], displayName = [], tweetText = [], dateTime = [],
                     likes = Num 0, retweets = Num 0, replies = Num 0, views = Num 0\<rparr>"

definition initialState :: state where
  "initialState = \<lparr>isAnalyzing = False, isProcessing = False, isScrolling = False,
                    scrollCount = 0, stabilityCounter = 0, startTime = None, endTime = None,
                    videoCache = [], imageCache = [],
                    newlyDiscoveredVideos = 0, newlyDiscoveredImages = 0,
                    lastMediaDiscoveryScroll = 0,
                    errors = \<lparr>pwa = 0, api = 0, network = 0, retryCount = 0\<rparr>\<rparr>"

definition typeError :: jsError where
  "typeError = \<lparr>errorName = ''TypeError'',
                 errorMessage = ''Cannot read properties of null''\<rparr>"

definition exampleVideo :: videoSurface where
  "exampleVideo = \<lparr>vidContainer = True, vidSrc = Str ''https://video.twimg.com/v1.mp4'',
                    vidPoster = Str [], vidDuration = Num 12, vidTimeLabel = None,
                    vidThumbnail = ''https://pbs.twimg.com/media/p1.jpg'',
                    vidNow = 1700000000000, vidStamp = 1700000000000\<rparr>"

definition exampleImage :: imageSurface where
  "exampleImage = \<lparr>imgRaises = False, imgSrc = ''https://pbs.twimg.com/media/a1?name=small'',
                    imgWidth = 600, imgHeight = 400,
                    imgNow = 1700000000001, imgStamp = 1700000000001\<rparr>"

definition exampleTweet :: container where
  "exampleTweet = \<lparr>isReply = False, isRetweet = False, imageProbe = Present, videoProbe = Present,
                    tweetMeta = emptyMetadata, tweetUrl = Str ''/user/status/1'',
                    imageContainers = Some [exampleImage], videoPlayer = Some exampleVideo,
                    raised = typeError\<rparr>"

text \<open>Stored records, a state whose caches hold three records each, a small configuration and an import payload.\<close>

definition exampleRecord :: "string \<Rightarrow> string \<Rightarrow> rat \<Rightarrow> videoData" where
  "exampleRecord i u d = \<lparr>ident = Str i, url = Str u, fullUrl = Str [], metadata = emptyMetadata,
                           timestamp = 0, discoveredAtScroll = Some (Num 0),
                           thumbnailUrl = Str [], durationSeconds = Some (Num d)\<rparr>"

definition examplePhoto :: "string \<Rightarrow> string \<Rightarrow> nat \<Rightarrow> imageData" where
  "examplePhoto i u p = \<lparr>ident = Str i, url = Str u, fullUrl = Str [], metadata = emptyMetadata,
                          timestamp = 0, discoveredAtScroll = Some (Num (of_nat p)),
                          width = 0, height = 0\<rparr>"

definition fullState :: state where
  "fullState = initialState
     \<lparr>videoCache := [(Str ''a'', exampleRecord ''a'' ''u1'' 5),
                      (Str ''b'', exampleRecord ''b'' ''u2'' 30),
                      (Str ''c'', exampleRecord ''c'' ''u3'' 12)],
      imageCache := [(Str ''p'', examplePhoto ''p'' ''w1'' 1),
                      (Str ''q'', examplePhoto ''q'' ''w2'' 2),
                      (Str ''r'', examplePhoto ''r'' ''w3'' 3)]\<rparr>"

definition smallConfig :: config where
  "smallConfig = \<lparr>scrollDelay = 5500, maxScrollAttempts = 3, stabilityThreshold = 2,
                   detectVideos = True, detectImages = True,
                   includeReplies = True, includeRetweets = True, maxCacheSize = 2,
                   ignorePwaErrors = True\<rparr>"

definition examplePayload :: payload where
  "examplePayload =
     \<lparr>videos = Some [exampleRecord ''tma_1'' ''https://video.twimg.com/v1.mp4'' 12,
                      (exampleRecord [] ''https://video.twimg.com/v9.mp4'' 40)\<lparr>ident := Undefined\<rparr>],
      images = Some [examplePhoto ''tma_7'' ''https://pbs.twimg.com/media/a7?format=jpg&name=4096x4096'' 4],
      stats = Some \<lparr>totalVideos = 2, totalImages = 1, totalMedia = 3, statsScrollCount = 9,
                     statsNewlyDiscoveredVideos = 2, statsNewlyDiscoveredImages = 1\<rparr>\<rparr>"

text \<open>
  The default configuration of the constructor; a tweet whose first probe raises, one
  whose video extraction raises, and one whose video extraction raises with a message
  that holds an ignore pattern; the environments of two runs, on a document without
  tweets and on a document holding the sample tweet's video; a start on Twitter/X, a
  scroll that succeeds, and a session that has not started.
\<close>

definition defaultConfig :: config where
  "defaultConfig = \<lparr>scrollDelay = 5500, maxScrollAttempts = 300, stabilityThreshold = 8,
                     detectVideos = True, detectImages = True,
                     includeReplies = True, includeRetweets = True, maxCacheSize = 10000,
                     ignorePwaErrors = True\<rparr>"

definition raisingTweet :: container where
  "raisingTweet = exampleTweet\<lparr>imageProbe := Raises\<rparr>"

definition brokenTweet :: container where
  "brokenTweet = exampleTweet\<lparr>imageProbe := Absent, videoPlayer := None\<rparr>"

definition blockedTweet :: container where
  "blockedTweet = brokenTweet\<lparr>raised := \<lparr>errorName = ''TypeError'',
                     errorMessage = ''Failed to fetch https://x.com/i/api/graphql/TweetDetail''\<rparr>\<rparr>"

definition quietEnv :: "nat \<Rightarrow> passEnv" where
  "quietEnv k = \<lparr>scrollRaises = False, scrollError = typeError, stopRequested = False,
                 documentAtDetection = Inr []\<rparr>"

definition videoEnv :: "nat \<Rightarrow> passEnv" where
  "videoEnv k = \<lparr>scrollRaises = False, scrollError = typeError, stopRequested = False,
                 documentAtDetection = Inr [exampleTweet\<lparr>imageProbe := Absent\<rparr>]\<rparr>"

definition twitterPage :: startEnv where
  "twitterPage = \<lparr>nowAtStart = 1000, nowAtEnd = 2000, onTwitter = True, initialDocument = Inr []\<rparr>"

definition scrolls :: scrollEnv where
  "scrolls = \<lparr>scrollRaises = False, scrollError = typeError\<rparr>"

definition idle :: session where
  "idle = \<lparr>analyzer = initialState, pending = []\<rparr>"

text \<open>
  Two tweets with one video each, the records extraction stores for them in pass \<open>n\<close>,
  a configuration with room for one record in each cache, and a start command that finds
  the second tweet in the document.
\<close>

definition videoTweet :: container where
  "videoTweet = exampleTweet\<lparr>imageProbe := Absent\<rparr>"

definition secondTweet :: container where
  "secondTweet = videoTweet
     \<lparr>tweetUrl := Str ''/user/status/2'',
      videoPlayer := Some (exampleVideo\<lparr>vidSrc := Str ''https://video.twimg.com/v2.mp4'',
                                        vidDuration := Num 40\<rparr>)\<rparr>"

definition firstVideo :: "nat \<Rightarrow> videoData" where
  "firstVideo n = \<lparr>ident = Str ''tma_18f9a7a5'', url = Str ''https://video.twimg.com/v1.mp4'',
                    fullUrl = Str ''https://twitter.com/user/status/1'',
                    metadata = emptyMetadata, timestamp = 1700000000000,
                    discoveredAtScroll = Some (Num (of_nat n)),
                    thumbnailUrl = Str ''https://pbs.twimg.com/media/p1.jpg'',
                    durationSeconds = Some (Num 12)\<rparr>"

definition secondVideo :: "nat \<Rightarrow> videoData" where
  "secondVideo n = \<lparr>ident = Str ''tma_3a661fe3'', url = Str ''https://video.twimg.com/v2.mp4'',
                     fullUrl = Str ''https://twitter.com/user/status/2'',
                     metadata = emptyMetadata, timestamp = 1700000000000,
                     discoveredAtScroll = Some (Num (of_nat n)),
                     thumbnailUrl = Str ''https://pbs.twimg.com/media/p1.jpg'',
                     durationSeconds = Some (Num 40)\<rparr>"

definition tightConfig :: config where
  "tightConfig = defaultConfig\<lparr>maxCacheSize := 1\<rparr>"

definition restartPage :: startEnv where
  "restartPage = twitterPage\<lparr>initialDocument := Inr [secondTweet]\<rparr>"

text \<open>
  The first steps of a session: the start command, a pass that finds the first tweet, and
  a pass that finds nothing new; a pass on a document without tweets; and the session the
  first steps lead to, in which the third pass is waiting for its timer.
\<close>

definition firstPasses :: "event list" where
  "firstPasses = [StartCommand twitterPage scrolls,
                  TimerFires 0 (Inr [videoTweet]) scrolls 2000,
                  TimerFires 0 (Inr [videoTweet]) scrolls 2000]"

definition quietPass :: event where
  "quietPass = TimerFires 0 (Inr []) scrolls 2000"

definition afterFirstPasses :: session where
  "afterFirstPasses =
     \<lparr>analyzer = initialState
        \<lparr>isAnalyzing := True, isProcessing := True, isScrolling := True, startTime := Some 1000,
         scrollCount := 3, stabilityCounter := 1,
         videoCache := [(Str ''tma_18f9a7a5'', firstVideo 1)],
         newlyDiscoveredVideos := 1, lastMediaDiscoveryScroll := 1\<rparr>,
      pending = [\<lparr>timerVideosBefore = 1, timerImagesBefore = 0, timerDelay = 5500, timerErrors = 0\<rparr>]\<rparr>"

section \<open>Properties of the engagement-count parser\<close>

text \<open>
  The rounding to a double on some known values: one tenth is the double
  \<open>3602879701896397 / 2 ^ 55\<close>, a tie between two doubles goes to the one with an
  even significand, and a value that is a double is left alone.
\<close>

lemma toDouble_examples:
  "toDouble (1 / 10) = Num (3602879701896397 / 36028797018963968)"
  "toDouble 9007199254740993 = Num 9007199254740992"
  "toDouble 9007199254740995 = Num 9007199254740996"
  "toDouble (3 / 2) = Num (3 / 2)"
  by code_simp+

lemma upperChar_low:
  assumes "c \<in> set ''abcdefghijklmnopqrstuvwxyz''"
  shows "(upperChar c = CHR ''K'' \<longleftrightarrow> c = CHR ''k'') \<and> (upperChar c = CHR ''M'' \<longleftrightarrow> c = CHR ''m'') \<and> (upperChar c = CHR ''B'' \<longleftrightarrow> c = CHR ''b'')
   \<and> c \<noteq> CHR ''K'' \<and>  c \<noteq> CHR ''M'' \<and>  c \<noteq> CHR ''B''"
proof -
  have "c = CHR ''a'' \<or> c = CHR ''b'' \<or> c = CHR ''c'' \<or> c = CHR ''d'' \<or> c = CHR ''e'' \<or> c = CHR ''f'' \<or> c = CHR ''g''
     \<or> c = CHR ''h'' \<or> c = CHR ''i'' \<or> c = CHR ''j'' \<or> c = CHR ''k'' \<or> c = CHR ''l'' \<or> c = CHR ''m'' \<or> c = CHR ''n''
     \<or> c = CHR ''o'' \<or> c = CHR ''p'' \<or> c = CHR ''q'' \<or> c = CHR ''r'' \<or> c = CHR ''s'' \<or> c = CHR ''t'' \<or> c = CHR ''u''
     \<or> c = CHR ''v'' \<or> c = CHR ''w'' \<or> c = CHR ''x'' \<or> c = CHR ''y'' \<or> c = CHR ''z''"
    using assms by simp
  then show ?thesis by (elim disjE) (simp_all add: upperChar_def)
qed

lemma upperChar_other: 
  assumes "c \<notin> set ''abcdefghijklmnopqrstuvwxyz''" shows "upperChar c = c"
  using assms by (simp add: upperChar_def)

lemma upperChar_cases:
  "upperChar c = CHR ''K'' \<longleftrightarrow> c = CHR ''K'' \<or> c = CHR ''k''"
  "upperChar c = CHR ''M'' \<longleftrightarrow> c = CHR ''M'' \<or> c = CHR ''m''"
  "upperChar c = CHR ''B'' \<longleftrightarrow> c = CHR ''B'' \<or> c = CHR ''b''"
  using upperChar_low[of c] upperChar_other[of c] by (cases "c \<in> set ''abcdefghijklmnopqrstuvwxyz''"; force)+



lemma in_cleanText:
  "x \<in> set (cleanText text) \<longleftrightarrow> (\<exists>c \<in> set text. keptChar c \<and> upperChar c = x)"
  unfolding cleanText_def toUpperCase_def set_map set_filter by blast

lemma letter_in_cleanText_gen:
  assumes "keptChar U" "keptChar L" and "\<And>c. upperChar c = U \<longleftrightarrow> c = U \<or> c = L"
  shows "U \<in> set (cleanText text) \<longleftrightarrow> U \<in> set text \<or> L \<in> set text"
  unfolding in_cleanText using assms(1,2) by (auto simp: assms(3))

lemma letter_in_cleanText:
  "CHR ''K'' \<in> set (cleanText text) \<longleftrightarrow> CHR ''K'' \<in> set text \<or> CHR ''k'' \<in> set text"
  "CHR ''M'' \<in> set (cleanText text) \<longleftrightarrow> CHR ''M'' \<in> set text \<or> CHR ''m'' \<in> set text"
  "CHR ''B'' \<in> set (cleanText text) \<longleftrightarrow> CHR ''B'' \<in> set text \<or> CHR ''b'' \<in> set text"
proof -
  have k: "keptChar (CHR ''K'')" "keptChar (CHR ''k'')" "keptChar (CHR ''M'')" "keptChar (CHR ''m'')"
     "keptChar (CHR ''B'')" "keptChar (CHR ''b'')"
    by (simp_all add: keptChar_def)
  show "CHR ''K'' \<in> set (cleanText text) \<longleftrightarrow> CHR ''K'' \<in> set text \<or> CHR ''k'' \<in> set text"
    by (rule letter_in_cleanText_gen[OF k(1) k(2) upperChar_cases(1)])
  show "CHR ''M'' \<in> set (cleanText text) \<longleftrightarrow> CHR ''M'' \<in> set text \<or> CHR ''m'' \<in> set text"
    by (rule letter_in_cleanText_gen[OF k(3) k(4) upperChar_cases(2)])
  show "CHR ''B'' \<in> set (cleanText text) \<longleftrightarrow> CHR ''B'' \<in> set text \<or> CHR ''b'' \<in> set text"
    by (rule letter_in_cleanText_gen[OF k(5) k(6) upperChar_cases(3)])
qed

lemma cleanText_append: "cleanText (s @ t) = cleanText s @ cleanText t"
  by (simp add: cleanText_def toUpperCase_def)

lemma numberText_append: "numberText (s @ t) = numberText s @ numberText t"
  by (simp add: numberText_def)

lemma plain_char:
  assumes "c \<in> set ''0123456789.''"
  shows "keptChar c \<and> upperChar c = c \<and> \<not> suffixLetter c"
proof -
  have "c = CHR ''0'' \<or> c = CHR ''1'' \<or> c = CHR ''2'' \<or> c = CHR ''3'' \<or> c = CHR ''4'' \<or> c = CHR ''5''
      \<or> c = CHR ''6'' \<or> c = CHR ''7'' \<or> c = CHR ''8'' \<or> c = CHR ''9'' \<or> c = CHR ''.''"
    using assms by simp
  then show ?thesis by (elim disjE) (simp_all add: upperChar_def keptChar_def suffixLetter_def)
qed

lemma cleanText_plain:
  assumes "set ds \<subseteq> set ''0123456789.''" shows "cleanText ds = ds"
proof -
  have *: "\<And>c. c \<in> set ds \<Longrightarrow> keptChar c \<and> upperChar c = c"
    using assms plain_char by blast
  have "filter keptChar ds = ds"
    by (rule filter_True) (use * in blast)
  moreover have "map upperChar ds = ds"
    by (rule map_idI) (use * in blast)
  ultimately show ?thesis by (simp only: cleanText_def toUpperCase_def)
qed

lemma numberText_plain:
  assumes "set ds \<subseteq> set ''0123456789.''" shows "numberText ds = ds"
proof -
  have *: "\<And>c. c \<in> set ds \<Longrightarrow> \<not> suffixLetter c"
    using assms plain_char by blast
  show ?thesis unfolding numberText_def by (rule filter_True) (use * in blast)
qed

lemma plain_no_letters:
  assumes "set ds \<subseteq> set ''0123456789.''"
  shows "CHR ''K'' \<notin> set ds" "CHR ''M'' \<notin> set ds" "CHR ''B'' \<notin> set ds"
proof -
  have *: "\<And>c. c \<in> set ds \<Longrightarrow> \<not> suffixLetter c"
    using assms plain_char by blast
  show "CHR ''K'' \<notin> set ds" using *[of "CHR ''K''"] by (auto simp: suffixLetter_def)
  show "CHR ''M'' \<notin> set ds" using *[of "CHR ''M''"] by (auto simp: suffixLetter_def)
  show "CHR ''B'' \<notin> set ds" using *[of "CHR ''B''"] by (auto simp: suffixLetter_def)
qed

lemma cleanText_letters:
  "cleanText ''K'' = ''K''" "cleanText ''k'' = ''K''" "cleanText ''M'' = ''M''"
  "cleanText ''m'' = ''M''" "cleanText ''B'' = ''B''" "cleanText ''b'' = ''B''"
  by (simp_all add: cleanText_def toUpperCase_def upperChar_def keptChar_def)

lemma numberText_letters:
  "numberText ''K'' = []" "numberText ''M'' = []" "numberText ''B'' = []"
  by (simp_all add: numberText_def suffixLetter_def)

lemma parseEngagementCount_plain_suffix:
  assumes ds: "set ds \<subseteq> set ''0123456789.''" and ok: "\<not> isNaN (parseFloat ds)"
  shows "parseEngagementCount ds = Math_round (parseFloat ds)"
    and "parseEngagementCount (ds @ ''K'') = Math_round (times (parseFloat ds) 1000)"
    and "parseEngagementCount (ds @ ''k'') = Math_round (times (parseFloat ds) 1000)"
    and "parseEngagementCount (ds @ ''M'') = Math_round (times (parseFloat ds) 1000000)"
    and "parseEngagementCount (ds @ ''m'') = Math_round (times (parseFloat ds) 1000000)"
    and "parseEngagementCount (ds @ ''B'') = Math_round (times (parseFloat ds) 1000000000)"
    and "parseEngagementCount (ds @ ''b'') = Math_round (times (parseFloat ds) 1000000000)"
proof -
  have ne: "ds \<noteq> []" using ok by (auto simp: parseFloat_def)
  note facts = cleanText_append cleanText_plain[OF ds] numberText_append numberText_plain[OF ds]
     cleanText_letters plain_no_letters[OF ds] numberText_letters
  show "parseEngagementCount ds = Math_round (parseFloat ds)"
    using ne ok by (simp add: parseEngagementCount_def facts)
  show "parseEngagementCount (ds @ ''K'') = Math_round (times (parseFloat ds) 1000)"
    using ne ok by (simp add: parseEngagementCount_def facts)
  show "parseEngagementCount (ds @ ''k'') = Math_round (times (parseFloat ds) 1000)"
    using ne ok by (simp add: parseEngagementCount_def facts)
  show "parseEngagementCount (ds @ ''M'') = Math_round (times (parseFloat ds) 1000000)"
    using ne ok by (simp add: parseEngagementCount_def facts)
  show "parseEngagementCount (ds @ ''m'') = Math_round (times (parseFloat ds) 1000000)"
    using ne ok by (simp add: parseEngagementCount_def facts)
  show "parseEngagementCount (ds @ ''B'') = Math_round (times (parseFloat ds) 1000000000)"
    using ne ok by (simp add: parseEngagementCount_def facts)
  show "parseEngagementCount (ds @ ''b'') = Math_round (times (parseFloat ds) 1000000000)"
    using ne ok by (simp add: parseEngagementCount_def facts)
qed

lemma parseEngagementCount_strip:
  "parseEngagementCount text = parseEngagementCount (filter keptChar text)"
proof (cases "filter keptChar text = []")
  case True
  then have "cleanText text = []" by (simp add: cleanText_def toUpperCase_def)
  then show ?thesis using True by (simp add: parseEngagementCount_def)
next
  case False
  then have "text \<noteq> []" by auto
  moreover have "cleanText (filter keptChar text) = cleanText text"
    by (simp add: cleanText_def)
  ultimately show ?thesis using False
    unfolding parseEngagementCount_def by simp
qed

lemma toDouble_nonneg: "toDouble x = Infinity \<or> (\<exists>y\<ge>0. toDouble x = Num y)"
proof (cases "x \<le> 0")
  case True then show ?thesis by (simp add: toDouble_def)
next
  case False
  then have "0 \<le> roundHalfEven (x / 2 powi (max (ilog2 x) (- 1022) - 52))"
    by (auto simp: roundHalfEven_def Let_def zero_le_floor intro!: divide_nonneg_nonneg)
  then show ?thesis using False
    by (auto simp: toDouble_def Let_def)
qed

lemma parseFloat_nonneg: "parseFloat s = NaN \<or> parseFloat s = Infinity \<or> (\<exists>y\<ge>0. parseFloat s = Num y)"
  using toDouble_nonneg by (auto simp: parseFloat_def Let_def)

lemma times_nonneg:
  assumes "x = Infinity \<or> (\<exists>y\<ge>0. x = Num y)"
  shows "times x c = Infinity \<or> (\<exists>y\<ge>0. times x c = Num y)"
  using assms toDouble_nonneg by (cases x) auto

lemma Math_round_nat:
  assumes "x = Infinity \<or> (\<exists>y\<ge>0. x = Num y)"
  shows "Math_round x = Infinity \<or> (\<exists>n. Math_round x = Num (of_nat n))"
proof (cases x)
  case (Num y)
  then have "0 \<le> y" using assms by auto
  then have "0 \<le> \<lfloor>y + 1/2\<rfloor>" by simp
  then obtain n where "\<lfloor>y + 1/2\<rfloor> = int n" using nonneg_int_cases by blast
  then show ?thesis using Num by auto
qed (use assms in auto)

lemma parseEngagementCount_integer:
  "parseEngagementCount text = Infinity \<or> (\<exists>n. parseEngagementCount text = Num (of_nat n))"
proof -
  have z: "\<exists>n. Num 0 = Num (of_nat n)" by (rule exI[of _ 0]) simp
  let ?n = "parseFloat (numberText (cleanText text))"
  show ?thesis
  proof (cases "text = [] \<or> cleanText text = [] \<or> isNaN ?n")
    case True
    then show ?thesis using z by (auto simp: parseEngagementCount_def Let_def)
  next
    case False
    then have "?n = Infinity \<or> (\<exists>y\<ge>0. ?n = Num y)"
      using parseFloat_nonneg[of "numberText (cleanText text)"] by auto
    then show ?thesis using False Math_round_nat[OF times_nonneg] Math_round_nat
      by (simp add: parseEngagementCount_def Let_def)
  qed
qed

lemma parseEngagementCount_zero:
  assumes "text = [] \<or> cleanText text = [] \<or> isNaN (parseFloat (numberText (cleanText text)))"
  shows "parseEngagementCount text = Num 0"
  using assms by (auto simp: parseEngagementCount_def Let_def)

text \<open>
  Claim C9. The engagement-count parser gives 1500 on \<open>1.5K\<close>, 2000000 on \<open>2M\<close>, 0 on
  the empty text and 42 on \<open>42\<close>. In general its result depends only on the digits, dots
  and letters K, M, B (either case) of the text; it is 0 when the text is empty, nothing is
  left after cleaning, or no number can be read; for a decimal literal followed by K, M or B
  (either case) the parsed number is multiplied by 1e3, 1e6 or 1e9 and rounded to the nearest
  integer, and without a letter the bare number is rounded; the result is always a
  non-negative integer (or \<open>Infinity\<close>, when the digits overflow a double).
\<close>

theorem parseEngagementCount_contract:
  "parseEngagementCount ''1.5K'' = Num 1500
   \<and> parseEngagementCount ''2M'' = Num 2000000
   \<and> parseEngagementCount '''' = Num 0
   \<and> parseEngagementCount ''42'' = Num 42
   \<and> parseEngagementCount text = parseEngagementCount (filter (\<lambda>c. c \<in> set ''0123456789KkMmBb.'') text)
   \<and> (text = [] \<or> cleanText text = [] \<or> isNaN (parseFloat (numberText (cleanText text)))
        \<longrightarrow> parseEngagementCount text = Num 0)
   \<and> (set ds \<subseteq> set ''0123456789.'' \<and> \<not> isNaN (parseFloat ds) \<longrightarrow>
          parseEngagementCount ds = Math_round (parseFloat ds)
        \<and> parseEngagementCount (ds @ ''K'') = Math_round (times (parseFloat ds) 1000)
        \<and> parseEngagementCount (ds @ ''k'') = Math_round (times (parseFloat ds) 1000)
        \<and> parseEngagementCount (ds @ ''M'') = Math_round (times (parseFloat ds) 1000000)
        \<and> parseEngagementCount (ds @ ''m'') = Math_round (times (parseFloat ds) 1000000)
        \<and> parseEngagementCount (ds @ ''B'') = Math_round (times (parseFloat ds) 1000000000)
        \<and> parseEngagementCount (ds @ ''b'') = Math_round (times (parseFloat ds) 1000000000))
   \<and> (parseEngagementCount text = Infinity \<or> (\<exists>n. parseEngagementCount text = Num (of_nat n)))"
proof -
  have e1: "parseEngagementCount ''1.5K'' = Num 1500" by code_simp
  have e2: "parseEngagementCount ''2M'' = Num 2000000" by code_simp
  have e3: "parseEngagementCount '''' = Num 0" by code_simp
  have e4: "parseEngagementCount ''42'' = Num 42" by code_simp
  have s: "parseEngagementCount text = parseEngagementCount (filter (\<lambda>c. c \<in> set ''0123456789KkMmBb.'') text)"
    using parseEngagementCount_strip[of "text"] by (simp only: keptChar_def[abs_def])
  have z: "text = [] \<or> cleanText text = [] \<or> isNaN (parseFloat (numberText (cleanText text)))
        \<longrightarrow> parseEngagementCount text = Num 0"
    using parseEngagementCount_zero by blast
  note p = parseEngagementCount_plain_suffix[of ds]
  note i = parseEngagementCount_integer[of "text"]
  show ?thesis
    apply (intro conjI impI)
                 apply (rule e1)
                apply (rule e2)
               apply (rule e3)
              apply (rule e4)
             apply (rule s)
            apply (erule z[rule_format])
           apply (erule conjE, erule (1) p(1))
          apply (erule conjE, erule (1) p(2))
         apply (erule conjE, erule (1) p(3))
        apply (erule conjE, erule (1) p(4))
       apply (erule conjE, erule (1) p(5))
      apply (erule conjE, erule (1) p(6))
     apply (erule conjE, erule (1) p(7))
    apply (rule i)
    done
qed

theorem parseEngagementCount_contract_witness:
  "parseEngagementCount ''12 bookmarks'' = parseEngagementCount ''12bkmk''
   \<and> parseEngagementCount ''likes'' = Num 0
   \<and> parseEngagementCount ''1.5k'' = Math_round (times (parseFloat ''1.5'') 1000)
   \<and> parseEngagementCount ''1.5B'' = Math_round (times (parseFloat ''1.5'') 1000000000)"
proof -
  have f: "filter (\<lambda>c. c \<in> set ''0123456789KkMmBb.'') ''12 bookmarks'' = ''12bkmk''" by simp
  have h: "set ''1.5'' \<subseteq> set ''0123456789.'' \<and> \<not> isNaN (parseFloat ''1.5'')" by code_simp
  have c: "isNaN (parseFloat (numberText (cleanText ''likes'')))" by code_simp
  from parseEngagementCount_contract[of "''12 bookmarks''" "''1.5''"] f h
  have 1: "parseEngagementCount ''12 bookmarks'' = parseEngagementCount ''12bkmk''"
    and 3: "parseEngagementCount ''1.5k'' = Math_round (times (parseFloat ''1.5'') 1000)"
    and 4: "parseEngagementCount ''1.5B'' = Math_round (times (parseFloat ''1.5'') 1000000000)"
    by simp_all
  from parseEngagementCount_contract[of "''likes''" "''1.5''"] c
  have 2: "parseEngagementCount ''likes'' = Num 0" by blast
  from 1 2 3 4 show ?thesis by blast
qed

text \<open>
  Claim C10. The multiplier is chosen by whether the letter occurs anywhere in the text (in
  either case), not by its position: whenever a number can be read, a K anywhere multiplies
  by 1e3; failing that an M anywhere multiplies by 1e6; failing that a B anywhere multiplies
  by 1e9. So \<open>K1.5\<close> gives 1500 as \<open>1.5K\<close> does, \<open>1K5\<close> gives 15000, and K wins over M,
  M over B.
\<close>

theorem parseEngagementCount_letter_anywhere:
  assumes "\<not> isNaN (parseFloat (numberText (cleanText text)))"
  shows "(CHR ''K'' \<in> set text \<or> CHR ''k'' \<in> set text \<longrightarrow>
            parseEngagementCount text = Math_round (times (parseFloat (numberText (cleanText text))) 1000))
       \<and> (CHR ''K'' \<notin> set text \<and> CHR ''k'' \<notin> set text \<and> (CHR ''M'' \<in> set text \<or> CHR ''m'' \<in> set text) \<longrightarrow>
            parseEngagementCount text = Math_round (times (parseFloat (numberText (cleanText text))) 1000000))
       \<and> (CHR ''K'' \<notin> set text \<and> CHR ''k'' \<notin> set text \<and> CHR ''M'' \<notin> set text \<and> CHR ''m'' \<notin> set text
             \<and> (CHR ''B'' \<in> set text \<or> CHR ''b'' \<in> set text) \<longrightarrow>
            parseEngagementCount text = Math_round (times (parseFloat (numberText (cleanText text))) 1000000000))
       \<and> parseEngagementCount ''K1.5'' = Num 1500
       \<and> parseEngagementCount ''1.5K'' = Num 1500
       \<and> parseEngagementCount ''1K5'' = Num 15000
       \<and> parseEngagementCount ''1MK'' = Num 1000
       \<and> parseEngagementCount ''1BM'' = Num 1000000"
proof -
  have nn: "numberText (cleanText text) \<noteq> []" using assms by (auto simp: parseFloat_def)
  then have ne: "cleanText text \<noteq> []" "text \<noteq> []"
    by (auto simp: numberText_def cleanText_def toUpperCase_def)
  have e: "parseEngagementCount ''K1.5'' = Num 1500" "parseEngagementCount ''1.5K'' = Num 1500"
    "parseEngagementCount ''1K5'' = Num 15000" "parseEngagementCount ''1MK'' = Num 1000"
    "parseEngagementCount ''1BM'' = Num 1000000"
    by code_simp+
  have g: "(CHR ''K'' \<in> set text \<or> CHR ''k'' \<in> set text \<longrightarrow>
            parseEngagementCount text = Math_round (times (parseFloat (numberText (cleanText text))) 1000))
       \<and> (CHR ''K'' \<notin> set text \<and> CHR ''k'' \<notin> set text \<and> (CHR ''M'' \<in> set text \<or> CHR ''m'' \<in> set text) \<longrightarrow>
            parseEngagementCount text = Math_round (times (parseFloat (numberText (cleanText text))) 1000000))
       \<and> (CHR ''K'' \<notin> set text \<and> CHR ''k'' \<notin> set text \<and> CHR ''M'' \<notin> set text \<and> CHR ''m'' \<notin> set text
             \<and> (CHR ''B'' \<in> set text \<or> CHR ''b'' \<in> set text) \<longrightarrow>
            parseEngagementCount text = Math_round (times (parseFloat (numberText (cleanText text))) 1000000000))"
    using assms ne
    by (simp add: parseEngagementCount_def Let_def letter_in_cleanText)
  from g e show ?thesis by blast
qed

theorem parseEngagementCount_letter_anywhere_witness:
  "parseEngagementCount ''k 2.5 m'' = Math_round (times (parseFloat ''2.5'') 1000)
   \<and> parseEngagementCount ''B 2.5 m'' = Math_round (times (parseFloat ''2.5'') 1000000)
   \<and> parseEngagementCount ''b7'' = Math_round (times (parseFloat ''7'') 1000000000)"
proof -
  have c: "numberText (cleanText ''k 2.5 m'') = ''2.5''" "numberText (cleanText ''B 2.5 m'') = ''2.5''"
     "numberText (cleanText ''b7'') = ''7''" 
     "\<not> isNaN (parseFloat ''2.5'')" "\<not> isNaN (parseFloat ''7'')" by code_simp+
  from parseEngagementCount_letter_anywhere[of "''k 2.5 m''"] c
  have 1: "parseEngagementCount ''k 2.5 m'' = Math_round (times (parseFloat ''2.5'') 1000)" by simp
  from parseEngagementCount_letter_anywhere[of "''B 2.5 m''"] c
  have 2: "parseEngagementCount ''B 2.5 m'' = Math_round (times (parseFloat ''2.5'') 1000000)" by simp
  from parseEngagementCount_letter_anywhere[of "''b7''"] c
  have 3: "parseEngagementCount ''b7'' = Math_round (times (parseFloat ''7'') 1000000000)" by simp
  from 1 2 3 show ?thesis by blast
qed

section \<open>Duplicate rejection at extraction\<close>

lemma Map_set_fresh: "\<not> Map_has m k \<Longrightarrow> Map_set m k v = m @ [(k, v)]"
  by (induction m) (auto simp: Map_has_def)















section \<open>Cache trimming\<close>

lemma Map_set_append_fresh: "k \<notin> set (map fst m) \<Longrightarrow> Map_set m k v = m @ [(k, v)]"
  by (induction m) auto

lemma Map_new_distinct:
  assumes "distinct (map fst es)" shows "Map_new es = es"
proof -
  have "foldl (\<lambda>m (k, v). Map_set m k v) [] es = es" using assms
  proof (induction es rule: rev_induct)
    case Nil
    then show ?case by simp
  next
    case (snoc e es)
    obtain k v where e: "e = (k, v)" by (cases e)
    from snoc.prems have d: "distinct (map fst es)" and k: "k \<notin> set (map fst es)"
      by (auto simp: e)
    show ?case using snoc.IH[OF d] Map_set_append_fresh[OF k] by (simp add: e)
  qed
  then show ?thesis by (simp add: Map_new_def)
qed

text \<open>The sort permutes its argument, whatever the comparator.\<close>

lemma insertSorted_mset: "mset (insertSorted comparefn x ys) = add_mset x (mset ys)"
  by (induction ys) simp_all

lemma Array_sort_mset: "mset (Array_sort comparefn xs) = mset xs"
  unfolding Array_sort_def by (induction xs) (simp_all add: insertSorted_mset)

lemma Array_sort_distinct:
  assumes "distinct (map fst es)"
  shows "distinct (map fst (Array_sort comparefn es))"
proof -
  have "image_mset fst (mset (Array_sort comparefn es)) = image_mset fst (mset es)"
    by (simp only: Array_sort_mset)
  then have "mset (map fst (Array_sort comparefn es)) = mset (map fst es)"
    by simp
  then show ?thesis using assms by (metis mset_eq_imp_distinct_iff)
qed

text \<open>
  On numbers that are not \<open>NaN\<close>, \<^verbatim>\<open>>=\<close> is a total preorder and the comparators follow
  it: then the sorted array is in descending order.
\<close>

lemma notSmaller_total: "\<not> isNaN x \<Longrightarrow> \<not> isNaN y \<Longrightarrow> notSmaller x y \<or> notSmaller y x"
  by (cases x; cases y) auto

lemma notSmaller_trans: "notSmaller x y \<Longrightarrow> notSmaller y z \<Longrightarrow> notSmaller x z"
  by (cases x; cases y; cases z) auto

lemma minusSign_notSmaller:
  "\<not> isNaN x \<Longrightarrow> \<not> isNaN y \<Longrightarrow> (minusSign y x \<le> 0) = notSmaller x y"
  by (cases x; cases y) auto

lemma insertSorted_descending:
  fixes key :: "'a \<Rightarrow> jsnumber"
  assumes "\<not> isNaN (key x)" and "\<forall>y \<in> set ys. \<not> isNaN (key y)"
    and "sorted_wrt (\<lambda>a b. notSmaller (key a) (key b)) ys"
  shows "sorted_wrt (\<lambda>a b. notSmaller (key a) (key b))
           (insertSorted (\<lambda>a b. minusSign (key b) (key a)) x ys)"
  using assms(2,3)
proof (induction ys)
  case Nil
  then show ?case by simp
next
  case (Cons y ys)
  have ny: "\<not> isNaN (key y)" using Cons.prems(1) by simp
  show ?case
  proof (cases "minusSign (key y) (key x) \<le> 0")
    case True
    then have xy: "notSmaller (key x) (key y)"
      using minusSign_notSmaller[OF assms(1) ny] by simp
    have "\<forall>z \<in> set ys. notSmaller (key x) (key z)"
      using Cons.prems(2) xy notSmaller_trans by fastforce
    then show ?thesis using True xy Cons.prems(2) by simp
  next
    case False
    then have "\<not> notSmaller (key x) (key y)"
      using minusSign_notSmaller[OF assms(1) ny] by simp
    then have yx: "notSmaller (key y) (key x)"
      using notSmaller_total[OF assms(1) ny] by blast
    have IH: "sorted_wrt (\<lambda>a b. notSmaller (key a) (key b))
                (insertSorted (\<lambda>a b. minusSign (key b) (key a)) x ys)"
      using Cons.IH Cons.prems by simp
    have "set (insertSorted (\<lambda>a b. minusSign (key b) (key a)) x ys) = insert x (set ys)"
      by (metis insertSorted_mset set_mset_add_mset_insert set_mset_mset)
    then have "\<forall>z \<in> set (insertSorted (\<lambda>a b. minusSign (key b) (key a)) x ys).
                 notSmaller (key y) (key z)"
      using yx Cons.prems(2) by simp
    then show ?thesis using False IH by simp
  qed
qed

lemma Array_sort_descending:
  fixes key :: "'a \<Rightarrow> jsnumber"
  assumes "\<forall>x \<in> set xs. \<not> isNaN (key x)"
  shows "sorted_wrt (\<lambda>a b. notSmaller (key a) (key b))
           (Array_sort (\<lambda>a b. minusSign (key b) (key a)) xs)"
  using assms
proof (induction xs)
  case Nil
  then show ?case by (simp add: Array_sort_def)
next
  case (Cons x xs)
  let ?s = "Array_sort (\<lambda>a b. minusSign (key b) (key a)) xs"
  have s: "sorted_wrt (\<lambda>a b. notSmaller (key a) (key b)) ?s" using Cons by simp
  have "set ?s = set xs" by (metis Array_sort_mset set_mset_mset)
  then have n: "\<forall>y \<in> set ?s. \<not> isNaN (key y)" using Cons.prems by simp
  have x: "\<not> isNaN (key x)" using Cons.prems by simp
  have "Array_sort (\<lambda>a b. minusSign (key b) (key a)) (x # xs)
          = insertSorted (\<lambda>a b. minusSign (key b) (key a)) x ?s"
    by (simp add: Array_sort_def)
  then show ?case using insertSorted_descending[OF x n s] by simp
qed

lemma descending_take_drop:
  assumes "sorted_wrt R s" and "a \<in> set (take n s)" and "b \<in> set (drop n s)"
  shows "R a b"
proof -
  have "sorted_wrt R (take n s @ drop n s)" using assms(1) by simp
  then show ?thesis using assms(2,3) unfolding sorted_wrt_append by blast
qed

lemma trim_count:
  fixes m :: "('k \<times> 'v) list" and n :: nat and comparefn :: "'k \<times> 'v \<Rightarrow> 'k \<times> 'v \<Rightarrow> int"
  assumes d: "distinct (map fst m)" and big: "Map_size m > n"
  defines "m' \<equiv> Map_new (take n (Array_sort comparefn m))"
  shows "m' = take n (Array_sort comparefn m)"
    and "Map_size m' = n"
    and "mset m' \<subseteq># mset m"
proof -
  let ?s = "Array_sort comparefn m"
  have ds: "distinct (map fst ?s)" using d by (rule Array_sort_distinct)
  then have dt: "distinct (map fst (take n ?s))" by (simp add: take_map[symmetric] distinct_take)
  then show m': "m' = take n ?s" unfolding m'_def by (rule Map_new_distinct)
  have len: "length ?s = length m" by (metis Array_sort_mset size_mset)
  show "Map_size m' = n" using big by (simp add: m' Map_size_def len)
  have "mset (take n ?s) \<subseteq># mset ?s" by (metis append_take_drop_id mset_subset_eq_add_left mset_append)
  then show "mset m' \<subseteq># mset m" by (simp add: m' Array_sort_mset)
qed

lemma trim_keeps_top:
  fixes key :: "'k \<times> 'v \<Rightarrow> jsnumber" and m :: "('k \<times> 'v) list" and n :: nat
  assumes d: "distinct (map fst m)" and big: "Map_size m > n"
    and num: "\<forall>e \<in> set m. \<not> isNaN (key e)"
    and kept: "kept \<in> set (Map_new (take n (Array_sort (\<lambda>a b. minusSign (key b) (key a)) m)))"
    and gone: "gone \<in> set m" "gone \<notin> set (Map_new (take n (Array_sort (\<lambda>a b. minusSign (key b) (key a)) m)))"
  shows "notSmaller (key kept) (key gone)"
proof -
  let ?s = "Array_sort (\<lambda>a b. minusSign (key b) (key a)) m"
  have m': "Map_new (take n ?s) = take n ?s" by (rule trim_count(1)[OF d big])
  have "set m = set ?s" by (metis Array_sort_mset set_mset_mset)
  then have "gone \<in> set (take n ?s) \<union> set (drop n ?s)"
    using gone(1) by (metis append_take_drop_id set_append)
  then have g: "gone \<in> set (drop n ?s)" using gone(2) by (simp add: m')
  have k: "kept \<in> set (take n ?s)" using kept by (simp add: m')
  show ?thesis
    by (rule descending_take_drop[OF Array_sort_descending[OF num] k g])
qed

text \<open>
  A duration that is \<open>NaN\<close> comes out of \<^verbatim>\<open>convertDurationToSeconds\<close> for a time label
  such as \<^verbatim>\<open>1:xx\<close>: the branch for two pieces adds the pieces without the test for
  \<open>NaN\<close> that the branch for one piece makes. Extraction stores it.
\<close>

lemma convertDurationToSeconds_examples:
  "convertDurationToSeconds (Str ''1:30'') = Num 90"
  "convertDurationToSeconds (Str ''1:02:03'') = Num 3723"
  "convertDurationToSeconds (Str ''45'') = Num 45"
  "convertDurationToSeconds (Str ''xx'') = Num 0"
  "convertDurationToSeconds (Str ''1:xx'') = NaN"
  by code_simp+

lemma durationOf_unreadable:
  "durationOf (exampleVideo\<lparr>vidDuration := NaN, vidTimeLabel := Some (Str ''1:xx'')\<rparr>) = NaN"
  by (simp add: durationOf_def exampleVideo_def convertDurationToSeconds_examples)

lemma unreadable_duration_stored:
  "map (\<lambda>e. durationSeconds (snd e))
     (videoCache (snd (extractVideoData defaultConfig
        (exampleTweet\<lparr>videoPlayer :=
            Some (exampleVideo\<lparr>vidDuration := NaN, vidTimeLabel := Some (Str ''1:xx'')\<rparr>)\<rparr>)
        initialState)))
   = [Some NaN]"
  using durationOf_unreadable
  by (simp add: extractVideoData_def exampleTweet_def initialState_def videoSrcOf_def posterSrcOf_def
        exampleVideo_def Map_has_def Map_values_def Let_def)

text \<open>
  Claim C5 as stated fails on a cache that holds a record whose rank is not a number. With
  the videos \<open>a\<close> of 5 seconds, \<open>x\<close> of the duration \<open>NaN\<close> and \<open>b\<close> of 30 seconds, in
  this order, and room for two, the trim keeps \<open>a\<close> and \<open>x\<close> and evicts \<open>b\<close>, the
  longest. With \<open>x\<close> and \<open>b\<close> alone and room for one, where every comparison is a tie and
  the order of the sorted array is fixed by the language, it keeps \<open>x\<close>. An imported image
  without \<open>discoveredAtScroll\<close> does the same to the image cache: of \<open>p\<close> from pass 1,
  \<open>q\<close> without a pass and \<open>r\<close> from pass 3, the newest, \<open>r\<close>, is evicted.
\<close>

theorem trim_evicts_longer_video:
  "map fst (videoCache (checkCacheSize smallConfig
      (initialState\<lparr>videoCache :=
         [(Str ''a'', exampleRecord ''a'' ''u1'' 5),
          (Str ''x'', (exampleRecord ''x'' ''u2'' 0)\<lparr>durationSeconds := Some NaN\<rparr>),
          (Str ''b'', exampleRecord ''b'' ''u3'' 30)]\<rparr>)))
     = [Str ''a'', Str ''x'']
   \<and> map fst (videoCache (checkCacheSize (smallConfig\<lparr>maxCacheSize := 1\<rparr>)
      (initialState\<lparr>videoCache :=
         [(Str ''x'', (exampleRecord ''x'' ''u2'' 0)\<lparr>durationSeconds := Some NaN\<rparr>),
          (Str ''b'', exampleRecord ''b'' ''u3'' 30)]\<rparr>)))
     = [Str ''x'']
   \<and> map fst (imageCache (checkCacheSize smallConfig
      (initialState\<lparr>imageCache :=
         [(Str ''p'', examplePhoto ''p'' ''w1'' 1),
          (Str ''q'', (examplePhoto ''q'' ''w2'' 0)\<lparr>discoveredAtScroll := None\<rparr>),
          (Str ''r'', examplePhoto ''r'' ''w3'' 3)]\<rparr>)))
     = [Str ''p'', Str ''q'']"
  by (simp add: checkCacheSize_def smallConfig_def initialState_def Map_size_def
      Map_new_def Array_sort_def byDuration_def byDiscovery_def ToNumber_def
      exampleRecord_def examplePhoto_def)

text \<open>
  Claim C5, amended. For caches with one entry per key, \<^verbatim>\<open>checkCacheSize\<close> leaves each
  cache with exactly \<open>min size maxCacheSize\<close> records, all of them records of the cache
  before, and does not touch a cache within the limit. When every video of the cache has
  a number for its \<open>durationSeconds\<close> (not \<open>NaN\<close>, not missing), no retained video has a
  smaller \<open>durationSeconds\<close> than an evicted one; when every image has a number for its
  \<open>discoveredAtScroll\<close>, no retained image has an earlier discovery pass than an evicted
  one.
\<close>

theorem checkCacheSize_keeps_top:
  assumes "distinct (map fst (videoCache st))" and "distinct (map fst (imageCache st))"
  shows "Map_size (videoCache (checkCacheSize cfg st)) = min (Map_size (videoCache st)) (maxCacheSize cfg)
       \<and> Map_size (imageCache (checkCacheSize cfg st)) = min (Map_size (imageCache st)) (maxCacheSize cfg)
       \<and> mset (videoCache (checkCacheSize cfg st)) \<subseteq># mset (videoCache st)
       \<and> mset (imageCache (checkCacheSize cfg st)) \<subseteq># mset (imageCache st)
       \<and> ((\<forall>e \<in> set (videoCache st). \<not> isNaN (ToNumber (durationSeconds (snd e)))) \<longrightarrow>
            (\<forall>kept \<in> set (videoCache (checkCacheSize cfg st)).
             \<forall>gone \<in> set (videoCache st) - set (videoCache (checkCacheSize cfg st)).
               notSmaller (ToNumber (durationSeconds (snd kept))) (ToNumber (durationSeconds (snd gone)))))
       \<and> ((\<forall>e \<in> set (imageCache st). \<not> isNaN (ToNumber (discoveredAtScroll (snd e)))) \<longrightarrow>
            (\<forall>kept \<in> set (imageCache (checkCacheSize cfg st)).
             \<forall>gone \<in> set (imageCache st) - set (imageCache (checkCacheSize cfg st)).
               notSmaller (ToNumber (discoveredAtScroll (snd kept))) (ToNumber (discoveredAtScroll (snd gone)))))
       \<and> (Map_size (videoCache st) \<le> maxCacheSize cfg \<longrightarrow> videoCache (checkCacheSize cfg st) = videoCache st)
       \<and> (Map_size (imageCache st) \<le> maxCacheSize cfg \<longrightarrow> imageCache (checkCacheSize cfg st) = imageCache st)"
proof -
  let ?n = "maxCacheSize cfg"
  let ?kv = "\<lambda>e :: jsval \<times> videoData. ToNumber (durationSeconds (snd e))"
  let ?ki = "\<lambda>e :: jsval \<times> imageData. ToNumber (discoveredAtScroll (snd e))"
  have cv: "byDuration = (\<lambda>a b. minusSign (?kv b) (?kv a))"
    by (intro ext) (simp add: byDuration_def)
  have ci: "byDiscovery = (\<lambda>a b. minusSign (?ki b) (?ki a))"
    by (intro ext) (simp add: byDiscovery_def)
  have v: "videoCache (checkCacheSize cfg st) =
      (if Map_size (videoCache st) > ?n
       then Map_new (take ?n (Array_sort byDuration (videoCache st))) else videoCache st)"
    by (simp add: checkCacheSize_def Let_def)
  have i: "imageCache (checkCacheSize cfg st) =
      (if Map_size (imageCache st) > ?n
       then Map_new (take ?n (Array_sort byDiscovery (imageCache st))) else imageCache st)"
    by (simp add: checkCacheSize_def Let_def)
  note tv = trim_count[OF assms(1), where n="?n" and comparefn=byDuration]
  note ti = trim_count[OF assms(2), where n="?n" and comparefn=byDiscovery]
  have 1: "Map_size (videoCache (checkCacheSize cfg st)) = min (Map_size (videoCache st)) ?n"
    using tv(2) by (simp add: v)
  have 2: "Map_size (imageCache (checkCacheSize cfg st)) = min (Map_size (imageCache st)) ?n"
    using ti(2) by (simp add: i)
  have 3: "mset (videoCache (checkCacheSize cfg st)) \<subseteq># mset (videoCache st)"
    using tv(3) by (simp add: v)
  have 4: "mset (imageCache (checkCacheSize cfg st)) \<subseteq># mset (imageCache st)"
    using ti(3) by (simp add: i)
  have 5: "(\<forall>e \<in> set (videoCache st). \<not> isNaN (?kv e)) \<longrightarrow>
            (\<forall>kept \<in> set (videoCache (checkCacheSize cfg st)).
             \<forall>gone \<in> set (videoCache st) - set (videoCache (checkCacheSize cfg st)).
               notSmaller (?kv kept) (?kv gone))"
  proof (cases "Map_size (videoCache st) > ?n")
    case True
    show ?thesis
    proof (intro impI ballI)
      fix kept gone
      assume num: "\<forall>e \<in> set (videoCache st). \<not> isNaN (?kv e)"
        and k: "kept \<in> set (videoCache (checkCacheSize cfg st))"
        and g: "gone \<in> set (videoCache st) - set (videoCache (checkCacheSize cfg st))"
      show "notSmaller (?kv kept) (?kv gone)"
        using trim_keeps_top[OF assms(1) True num, of kept gone] k g True
        by (simp add: v cv)
    qed
  next
    case False
    then show ?thesis by (simp add: v)
  qed
  have 6: "(\<forall>e \<in> set (imageCache st). \<not> isNaN (?ki e)) \<longrightarrow>
            (\<forall>kept \<in> set (imageCache (checkCacheSize cfg st)).
             \<forall>gone \<in> set (imageCache st) - set (imageCache (checkCacheSize cfg st)).
               notSmaller (?ki kept) (?ki gone))"
  proof (cases "Map_size (imageCache st) > ?n")
    case True
    show ?thesis
    proof (intro impI ballI)
      fix kept gone
      assume num: "\<forall>e \<in> set (imageCache st). \<not> isNaN (?ki e)"
        and k: "kept \<in> set (imageCache (checkCacheSize cfg st))"
        and g: "gone \<in> set (imageCache st) - set (imageCache (checkCacheSize cfg st))"
      show "notSmaller (?ki kept) (?ki gone)"
        using trim_keeps_top[OF assms(2) True num, of kept gone] k g True
        by (simp add: i ci)
    qed
  next
    case False
    then show ?thesis by (simp add: i)
  qed
  have 7: "Map_size (videoCache st) \<le> ?n \<longrightarrow> videoCache (checkCacheSize cfg st) = videoCache st"
    by (simp add: v)
  have 8: "Map_size (imageCache st) \<le> ?n \<longrightarrow> imageCache (checkCacheSize cfg st) = imageCache st"
    by (simp add: i)
  from 1 2 3 4 5 6 7 8 show ?thesis by blast
qed

lemma fullState_trimmed:
  "map fst (videoCache (checkCacheSize smallConfig fullState)) = [Str ''b'', Str ''c'']"
  "map fst (imageCache (checkCacheSize smallConfig fullState)) = [Str ''r'', Str ''q'']"
  by (simp_all add: checkCacheSize_def fullState_def smallConfig_def initialState_def Map_size_def
      Map_new_def Array_sort_def byDuration_def byDiscovery_def ToNumber_def
      exampleRecord_def examplePhoto_def)

theorem checkCacheSize_keeps_top_witness:
  "Map_size (videoCache (checkCacheSize smallConfig fullState)) = 2
   \<and> Map_size (imageCache (checkCacheSize smallConfig fullState)) = 2
   \<and> map fst (videoCache (checkCacheSize smallConfig fullState)) = [Str ''b'', Str ''c'']
   \<and> map fst (imageCache (checkCacheSize smallConfig fullState)) = [Str ''r'', Str ''q'']
   \<and> list_all (\<lambda>kept. notSmaller (ToNumber (durationSeconds (snd kept))) (Num 5))
        (videoCache (checkCacheSize smallConfig fullState))
   \<and> videoCache (checkCacheSize (smallConfig\<lparr>maxCacheSize := 3\<rparr>) fullState) = videoCache fullState"
proof -
  have d: "distinct (map fst (videoCache fullState))" "distinct (map fst (imageCache fullState))"
    by (simp_all add: fullState_def initialState_def)
  have s: "Map_size (videoCache fullState) = 3" "Map_size (imageCache fullState) = 3"
    "maxCacheSize smallConfig = 2"
    by (simp_all add: fullState_def initialState_def Map_size_def smallConfig_def)
  have num: "\<forall>e \<in> set (videoCache fullState). \<not> isNaN (ToNumber (durationSeconds (snd e)))"
    by (simp add: fullState_def initialState_def exampleRecord_def ToNumber_def)
  have a: "(Str ''a'', exampleRecord ''a'' ''u1'' 5) \<in> set (videoCache fullState)"
    by (simp add: fullState_def initialState_def)
  have "Str ''a'' \<notin> set (map fst (videoCache (checkCacheSize smallConfig fullState)))"
    unfolding fullState_trimmed(1) by simp
  then have na: "(Str ''a'', exampleRecord ''a'' ''u1'' 5) \<notin> set (videoCache (checkCacheSize smallConfig fullState))"
    by force
  have da: "ToNumber (durationSeconds (snd (Str ''a'', exampleRecord ''a'' ''u1'' 5))) = Num 5"
    by (simp add: exampleRecord_def ToNumber_def)
  note t = checkCacheSize_keeps_top[OF d, of smallConfig]
  from t s
  have 1: "Map_size (videoCache (checkCacheSize smallConfig fullState)) = 2"
    and 2: "Map_size (imageCache (checkCacheSize smallConfig fullState)) = 2" by simp_all
  from t num a na
  have "\<forall>kept \<in> set (videoCache (checkCacheSize smallConfig fullState)).
        notSmaller (ToNumber (durationSeconds (snd kept))) (Num 5)"
    unfolding da[symmetric] by blast
  then have 3: "list_all (\<lambda>kept. notSmaller (ToNumber (durationSeconds (snd kept))) (Num 5))
        (videoCache (checkCacheSize smallConfig fullState))"
    by (simp add: list_all_iff)
  from checkCacheSize_keeps_top[OF d, of "smallConfig\<lparr>maxCacheSize := 3\<rparr>"] s
  have 4: "videoCache (checkCacheSize (smallConfig\<lparr>maxCacheSize := 3\<rparr>) fullState) = videoCache fullState"
    by simp
  from 1 2 3 4 fullState_trimmed show ?thesis by blast
qed

section \<open>Import and export\<close>

lemma Map_set_keys: "set (map fst (Map_set m k v)) = insert k (set (map fst m))"
proof (induction m)
  case Nil
  show ?case by simp
next
  case (Cons p m)
  obtain a b where p: "p = (a, b)" by (cases p)
  show ?case using Cons.IH by (cases "a = k") (simp_all add: p insert_commute)
qed

lemma Map_set_keyed:
  assumes "\<forall>(k', v') \<in> set m. ident v' = k'" and "ident v = k"
  shows "\<forall>(k', v') \<in> set (Map_set m k v). ident v' = k'"
  using assms
proof (induction m)
  case Nil
  then show ?case by simp
next
  case (Cons p m)
  obtain a b where p: "p = (a, b)" by (cases p)
  from Cons.prems have "\<forall>(k', v') \<in> set m. ident v' = k'" and ab: "ident b = a" by (auto simp: p)
  with Cons have IH: "\<forall>(k', v') \<in> set (Map_set m k v). ident v' = k'" by blast
  show ?case using IH ab Cons.prems by (cases "a = k") (simp_all add: p)
qed

lemma truthy_generated: "truthy (Str (generateUniqueId a b t))"
  by (simp add: generateUniqueId_def Let_def)

lemma importItems_replace:
  assumes "\<forall>(k', v') \<in> set cache. ident v' = k'"
    and "importItems True now k items cache a s = (cache', a', s', items')"
  shows "(\<forall>(k', v') \<in> set cache'. ident v' = k')
       \<and> set (map fst cache') = set (map fst cache) \<union> set (map ident items')
       \<and> list_all2 (\<lambda>v v'. truthy (ident v') \<and> v' = (if truthy (ident v) then v else v\<lparr>ident := ident v'\<rparr>)) items items'"
  using assms
proof (induction items arbitrary: k cache a s cache' a' s' items')
  case Nil
  then show ?case by simp
next
  case (Cons item rest)
  define i where "i = (if \<not> truthy (ident item)
                   then item\<lparr>ident := Str (generateUniqueId (Str (orEmpty (url item)))
                                                (Str (orEmpty (fullUrl item))) (now k))\<rparr>
                   else item)"
  obtain c2 a2 s2 items2 where r: "importItems True now (Suc k) rest (Map_set cache (ident i) i) (a + 1) s = (c2, a2, s2, items2)"
    by (metis prod_cases4)
  from Cons.prems(2) r have eq: "cache' = c2" "items' = i # items2"
    by (auto simp: Let_def i_def)
  have keyed: "\<forall>(k', v') \<in> set (Map_set cache (ident i) i). ident v' = k'"
    using Cons.prems(1) by (intro Map_set_keyed) auto
  note IH = Cons.IH[OF keyed r]
  have t: "truthy (ident i)" using truthy_generated by (simp add: i_def)
  have e: "i = (if truthy (ident item) then item else item\<lparr>ident := ident i\<rparr>)" by (simp add: i_def)
  have 1: "\<forall>(k', v') \<in> set cache'. ident v' = k'" using IH by (simp add: eq)
  have "set (map fst cache') = insert (ident i) (set (map fst cache)) \<union> set (map ident items2)"
    using IH by (simp only: eq Map_set_keys)
  then have 2: "set (map fst cache') = set (map fst cache) \<union> set (map ident items')"
    by (simp add: eq)
  have 3: "list_all2 (\<lambda>v v'. truthy (ident v') \<and> v' = (if truthy (ident v) then v else v\<lparr>ident := ident v'\<rparr>)) (item # rest) items'"
    unfolding eq using IH t e by (simp del: if_split)
  from 1 2 3 show ?case by blast
qed

lemma keyed_idents:
  assumes "\<forall>(k', v') \<in> set m. ident v' = k'"
  shows "map ident (Map_values m) = map fst m"
  using assms by (induction m) (auto simp: Map_values_def)

lemma importItems_replace_empty:
  assumes "importItems True now k items [] 0 0 = (cache', a', s', items')"
  shows "set (map ident (Map_values cache')) = set (map ident items')"
    and "list_all2 (\<lambda>v v'. truthy (ident v') \<and> v' = (if truthy (ident v) then v else v\<lparr>ident := ident v'\<rparr>)) items items'"
proof -
  have k: "\<forall>(k', v') \<in> set ([] :: (jsval \<times> 'a media_scheme) list). ident v' = k'" by simp
  note r = importItems_replace[OF k assms]
  show "set (map ident (Map_values cache')) = set (map ident items')"
    using r keyed_idents[of cache'] by simp
  show "list_all2 (\<lambda>v v'. truthy (ident v') \<and> v' = (if truthy (ident v) then v else v\<lparr>ident := ident v'\<rparr>)) items items'"
    using r by blast
qed

text \<open>The line the failed import logs holds none of the ignore patterns.\<close>

lemma import_failure_not_ignored:
  "\<not> shouldIgnoreError ''Error importing JSON: Invalid JSON format. Missing videos or images data.''"
  by code_simp

lemma importFailed_missing:
  "importFailed cfg ''Invalid JSON format. Missing videos or images data.'' st
     = (Inl (Error ''Invalid JSON format. Missing videos or images data.''), st)"
  using import_failure_not_ignored
  by (simp add: importFailed_def logMessage_def console_error_def)

text \<open>
  Claim C4. A payload whose \<open>videos\<close> or \<open>images\<close> sequence is missing is rejected, in Merge
  and in Replace mode, with the reason \<open>Invalid JSON format. Missing videos or images data.\<close>,
  and the whole state (both caches and every counter, the error counters included) is as
  it was before the call.
\<close>

theorem importJsonData_missing_sequence:
  assumes "videos importData = None \<or> images importData = None"
  shows "importJsonData cfg replace now importData st
         = (Inl (Error ''Invalid JSON format. Missing videos or images data.''), st)"
  using assms by (auto simp: importJsonData_def importFailed_missing split: option.splits)

theorem importJsonData_missing_sequence_witness:
  "importJsonData defaultConfig True (\<lambda>k. 7) (examplePayload\<lparr>images := None\<rparr>) fullState
     = (Inl (Error ''Invalid JSON format. Missing videos or images data.''), fullState)
   \<and> importJsonData defaultConfig False (\<lambda>k. 7) (examplePayload\<lparr>videos := None\<rparr>) fullState
     = (Inl (Error ''Invalid JSON format. Missing videos or images data.''), fullState)"
proof -
  have a: "videos (examplePayload\<lparr>images := None\<rparr>) = None \<or> images (examplePayload\<lparr>images := None\<rparr>) = None"
    and b: "videos (examplePayload\<lparr>videos := None\<rparr>) = None \<or> images (examplePayload\<lparr>videos := None\<rparr>) = None"
    by simp_all
  show ?thesis
    using importJsonData_missing_sequence[OF a, of defaultConfig True "\<lambda>k. 7" fullState]
      importJsonData_missing_sequence[OF b, of defaultConfig False "\<lambda>k. 7" fullState]
    by (rule conjI)
qed

text \<open>
  Claim C6. For a payload with both sequences, a Replace-mode import succeeds; the payload's
  records come out of it unchanged except that a record without an id has been given one,
  and an export taken afterwards holds, for videos and for images, exactly the ids of these
  records. The exported sequences are the same whatever state the import started from.
\<close>

theorem replace_import_then_export:
  assumes "videos importData = Some vs" and "images importData = Some is"
  shows "\<exists>p' r vs' is' ev ei.
           fst (importJsonData cfg True now importData st) = Inr (p', r)
         \<and> videos p' = Some vs' \<and> images p' = Some is'
         \<and> list_all2 (\<lambda>v v'. truthy (ident v') \<and> v' = (if truthy (ident v) then v else v\<lparr>ident := ident v'\<rparr>)) vs vs'
         \<and> list_all2 (\<lambda>v v'. truthy (ident v') \<and> v' = (if truthy (ident v) then v else v\<lparr>ident := ident v'\<rparr>)) is is'
         \<and> videos (exportDataAsJson (snd (importJsonData cfg True now importData st))) = Some ev
         \<and> images (exportDataAsJson (snd (importJsonData cfg True now importData st))) = Some ei
         \<and> set (map ident ev) = set (map ident vs')
         \<and> set (map ident ei) = set (map ident is')
         \<and> videos (exportDataAsJson (snd (importJsonData cfg True now importData st0))) = Some ev
         \<and> images (exportDataAsJson (snd (importJsonData cfg True now importData st0))) = Some ei"
proof -
  obtain vc va vsk vs' where v: "importItems True now 0 vs [] 0 0 = (vc, va, vsk, vs')"
    by (metis prod_cases4)
  obtain ic ia isk is' where i: "importItems True now (length vs) is [] 0 0 = (ic, ia, isk, is')"
    by (metis prod_cases4)
  have caches: "videoCache (snd (importJsonData cfg True now importData s)) = vc
              \<and> imageCache (snd (importJsonData cfg True now importData s)) = ic" for s
    using assms v i by (simp add: importJsonData_def Let_def split: option.splits)
  have out: "fst (importJsonData cfg True now importData st)
        = Inr (importData\<lparr>videos := Some vs', images := Some is'\<rparr>,
               \<lparr>videosAdded = va, imagesAdded = ia, videosSkipped = vsk, imagesSkipped = isk,
                totalProcessed = length vs + length is\<rparr>)"
    using assms v i by (simp add: importJsonData_def Let_def split: option.splits)
  have ex: "videos (exportDataAsJson (snd (importJsonData cfg True now importData s))) = Some (Map_values vc)
          \<and> images (exportDataAsJson (snd (importJsonData cfg True now importData s))) = Some (Map_values ic)" for s
    using caches[of s] by (simp add: exportDataAsJson_def Let_def)
  note rv = importItems_replace_empty[OF v] and ri = importItems_replace_empty[OF i]
  show ?thesis
    apply (rule exI[of _ "importData\<lparr>videos := Some vs', images := Some is'\<rparr>"])
    apply (rule exI[of _ "\<lparr>videosAdded = va, imagesAdded = ia, videosSkipped = vsk, imagesSkipped = isk,
                totalProcessed = length vs + length is\<rparr>"])
    apply (rule exI[of _ vs'], rule exI[of _ is'])
    apply (rule exI[of _ "Map_values vc"], rule exI[of _ "Map_values ic"])
    apply (intro conjI)
              apply (rule out)
             apply simp
            apply simp
           apply (rule rv(2))
          apply (rule ri(2))
         apply (rule ex[THEN conjunct1])
        apply (rule ex[THEN conjunct2])
       apply (rule rv(1))
      apply (rule ri(1))
     apply (rule ex[THEN conjunct1])
    apply (rule ex[THEN conjunct2])
    done
qed

theorem replace_import_then_export_witness:
  "\<exists>vs' ev. list_all2 (\<lambda>v v'. truthy (ident v') \<and> v' = (if truthy (ident v) then v else v\<lparr>ident := ident v'\<rparr>))
               [exampleRecord ''tma_1'' ''https://video.twimg.com/v1.mp4'' 12,
                (exampleRecord [] ''https://video.twimg.com/v9.mp4'' 40)\<lparr>ident := Undefined\<rparr>] vs'
           \<and> videos (exportDataAsJson (snd (importJsonData defaultConfig True (\<lambda>k. 7) examplePayload fullState))) = Some ev
           \<and> set (map ident ev) = set (map ident vs')
           \<and> videos (exportDataAsJson (snd (importJsonData defaultConfig True (\<lambda>k. 7) examplePayload initialState))) = Some ev"
proof -
  have v: "videos examplePayload = Some [exampleRecord ''tma_1'' ''https://video.twimg.com/v1.mp4'' 12,
                (exampleRecord [] ''https://video.twimg.com/v9.mp4'' 40)\<lparr>ident := Undefined\<rparr>]"
    and i: "images examplePayload = Some [examplePhoto ''tma_7'' ''https://pbs.twimg.com/media/a7?format=jpg&name=4096x4096'' 4]"
    by (simp_all add: examplePayload_def)
  from replace_import_then_export[OF v i, of defaultConfig "\<lambda>k. 7" fullState initialState]
  show ?thesis by blast
qed

lemma exampleTweet_fields:
  "videoPlayer exampleTweet = Some exampleVideo"
  "imageContainers exampleTweet = Some [exampleImage]"
  "tweetUrl exampleTweet = Str ''/user/status/1''"
  "tweetMeta exampleTweet = emptyMetadata"
  "isReply exampleTweet = False" "isRetweet exampleTweet = False"
  "imageProbe exampleTweet = Present" "videoProbe exampleTweet = Present"
  by (simp_all add: exampleTweet_def)

lemma exampleVideo_fields:
  "vidContainer exampleVideo" "vidStamp exampleVideo = 1700000000000" "durationOf exampleVideo = Num 12"
  "videoSrcOf exampleTweet exampleVideo = Str ''https://video.twimg.com/v1.mp4''"
  "posterSrcOf exampleVideo = Str ''https://pbs.twimg.com/media/p1.jpg''"
  "buildFullUrl (Str ''/user/status/1'') = ''https://twitter.com/user/status/1''"
  by (simp_all add: exampleVideo_def videoSrcOf_def posterSrcOf_def exampleTweet_def buildFullUrl_def
        startsWith_def durationOf_def)

lemma initialState_fields:
  "videoCache initialState = []" "imageCache initialState = []" "scrollCount initialState = 0"
  "stabilityCounter initialState = 0"
  by (simp_all add: initialState_def)

lemma exampleTweet_id:
  "videoIdOf exampleTweet exampleVideo = Str ''tma_18f9a7a5''"
  by (simp add: videoIdOf_def exampleTweet_def exampleVideo_def videoSrcOf_def posterSrcOf_def orElse_def
        generateUniqueId_def hashStep_def toStringRadix.simps)

lemma exampleTweet_extracted:
  "extractVideoData defaultConfig exampleTweet initialState
     = (1, initialState\<lparr>videoCache := [(Str ''tma_18f9a7a5'',
          \<lparr>ident = Str ''tma_18f9a7a5'', url = Str ''https://video.twimg.com/v1.mp4'',
           fullUrl = Str ''https://twitter.com/user/status/1'',
           metadata = emptyMetadata, timestamp = 1700000000000, discoveredAtScroll = Some (Num 0),
           thumbnailUrl = Str ''https://pbs.twimg.com/media/p1.jpg'',
           durationSeconds = Some (Num 12)\<rparr>)]\<rparr>)"
  by (simp add: extractVideoData_def exampleTweet_fields exampleVideo_fields initialState_fields
        exampleTweet_id Map_has_def Map_values_def Let_def)

text \<open>
  Claim C3, on the Merge-mode import path. \<^verbatim>\<open>importJsonData\<close> in Merge mode tests only
  \<^verbatim>\<open>videoCache.has(video.id)\<close>. A record imported after the extraction of a video with
  the same \<open>url\<close>, and two records of one payload with the same \<open>url\<close>, are all kept:
  the cache then holds two records with equal \<open>url\<close> and different ids.
\<close>

theorem merge_import_keeps_url_duplicate:
  "map (\<lambda>r. (ident r, url r))
       (Map_values (videoCache (snd (importJsonData defaultConfig False (\<lambda>k. 7)
          \<lparr>videos = Some [exampleRecord ''tma_1'' ''https://video.twimg.com/v1.mp4'' 12], images = Some [], stats = None\<rparr>
          (snd (extractVideoData defaultConfig exampleTweet initialState))))))
     = [(Str ''tma_18f9a7a5'', Str ''https://video.twimg.com/v1.mp4''),
        (Str ''tma_1'', Str ''https://video.twimg.com/v1.mp4'')]
   \<and> map (\<lambda>r. (ident r, url r))
       (Map_values (videoCache (snd (importJsonData defaultConfig False (\<lambda>k. 7)
          \<lparr>videos = Some [exampleRecord ''tma_1'' ''https://video.twimg.com/v1.mp4'' 12,
                           exampleRecord ''tma_2'' ''https://video.twimg.com/v1.mp4'' 12],
            images = Some [], stats = None\<rparr>
          initialState))))
     = [(Str ''tma_1'', Str ''https://video.twimg.com/v1.mp4''),
        (Str ''tma_2'', Str ''https://video.twimg.com/v1.mp4'')]"
proof -
  have a: "map (\<lambda>r. (ident r, url r))
       (Map_values (videoCache (snd (importJsonData defaultConfig False (\<lambda>k. 7)
          \<lparr>videos = Some [exampleRecord ''tma_1'' ''https://video.twimg.com/v1.mp4'' 12], images = Some [], stats = None\<rparr>
          (snd (extractVideoData defaultConfig exampleTweet initialState))))))
     = [(Str ''tma_18f9a7a5'', Str ''https://video.twimg.com/v1.mp4''),
        (Str ''tma_1'', Str ''https://video.twimg.com/v1.mp4'')]"
    by (simp add: importJsonData_def exampleTweet_extracted exampleRecord_def Map_has_def Map_values_def Let_def)
  have b: "map (\<lambda>r. (ident r, url r))
       (Map_values (videoCache (snd (importJsonData defaultConfig False (\<lambda>k. 7)
          \<lparr>videos = Some [exampleRecord ''tma_1'' ''https://video.twimg.com/v1.mp4'' 12,
                           exampleRecord ''tma_2'' ''https://video.twimg.com/v1.mp4'' 12],
            images = Some [], stats = None\<rparr>
          initialState))))
     = [(Str ''tma_1'', Str ''https://video.twimg.com/v1.mp4''),
        (Str ''tma_2'', Str ''https://video.twimg.com/v1.mp4'')]"
    by (simp add: importJsonData_def initialState_def exampleRecord_def Map_has_def Map_values_def Let_def)
  from a b show ?thesis by blast
qed

section \<open>The detection pass isolates failures\<close>

lemma Map_set_size_new: "\<not> Map_has m k \<Longrightarrow> Map_size (Map_set m k v) = Suc (Map_size m)"
  by (induction m) (auto simp: Map_has_def Map_size_def)

lemma console_error_caches:
  "videoCache (console_error cfg args st) = videoCache st"
  "imageCache (console_error cfg args st) = imageCache st"
  by (simp_all add: console_error_def)

lemma logMessage_caches:
  "videoCache (logMessage cfg message level st) = videoCache st"
  "imageCache (logMessage cfg message level st) = imageCache st"
  by (simp_all add: logMessage_def console_error_caches)

lemma extractVideoData_grown:
  "grown st (fst (extractVideoData cfg c st)) 0 (snd (extractVideoData cfg c st))"
  by (simp add: extractVideoData_def grown_def Let_def Map_set_size_new logMessage_caches
      split: option.splits)

lemma extractImage_grown:
  assumes "grown st 0 n (snd acc)" and "fst acc = n"
  shows "grown st 0 (fst (extractImage c i acc)) (snd (extractImage c i acc))"
  using assms by (simp add: extractImage_def grown_def Let_def Map_set_size_new)

lemma extractImage_fold_grown:
  assumes "grown st 0 (fst acc) (snd acc)"
  shows "grown st 0 (fst (foldl (\<lambda>acc i. extractImage c i acc) acc is))
                    (snd (foldl (\<lambda>acc i. extractImage c i acc) acc is))"
  using assms
proof (induction "is" arbitrary: acc)
  case Nil
  then show ?case by simp
next
  case (Cons i "is")
  have "grown st 0 (fst (extractImage c i acc)) (snd (extractImage c i acc))"
    using Cons.prems by (rule extractImage_grown) simp
  then show ?case using Cons.IH by simp
qed

lemma extractImageData_grown:
  "grown st 0 (fst (extractImageData cfg c st)) (snd (extractImageData cfg c st))"
proof -
  have g: "grown st 0 (fst (0::nat, st)) (snd (0::nat, st))" by (simp add: grown_def)
  show ?thesis
    using extractImage_fold_grown[OF g] g
    by (simp add: extractImageData_def grown_def logMessage_caches console_error_caches
        split: option.splits)
qed

lemma grown_step:
  assumes "grown s nv ni t" and "grown t nv' ni' u"
  shows "grown s (nv + nv') (ni + ni') u"
  using assms by (simp add: grown_def)

lemma processContainer_grown:
  assumes "grown s nv ni st"
  shows "grown s (fst (snd (processContainer cfg c (st, nv, ni))))
                 (snd (snd (processContainer cfg c (st, nv, ni))))
                 (fst (processContainer cfg c (st, nv, ni)))"
proof -
  obtain n1 st1 where i: "extractImageData cfg c st = (n1, st1)" by (cases "extractImageData cfg c st")
  have gi: "grown s nv (ni + n1) st1"
    using grown_step[OF assms extractImageData_grown[of st cfg c]] by (simp add: i)
  have gv: "\<And>t a b. grown s a b t \<Longrightarrow> grown s (a + fst (extractVideoData cfg c t)) b (snd (extractVideoData cfg c t))"
    using grown_step[OF _ extractVideoData_grown] by fastforce
  show ?thesis
    using assms gi gv[OF assms] gv[OF gi]
    by (simp add: processContainer_def tryContainer_def i split_beta split: probe.splits)
qed

lemma processContainer_fold_grown:
  assumes "grown s (fst (snd acc)) (snd (snd acc)) (fst acc)"
  shows "grown s (fst (snd (foldl (\<lambda>acc c. processContainer cfg c acc) acc cs)))
                 (snd (snd (foldl (\<lambda>acc c. processContainer cfg c acc) acc cs)))
                 (fst (foldl (\<lambda>acc c. processContainer cfg c acc) acc cs))"
  using assms
proof (induction cs arbitrary: acc)
  case Nil
  then show ?case by simp
next
  case (Cons c cs)
  obtain st nv ni where acc: "acc = (st, nv, ni)" by (cases acc)
  have "grown s (fst (snd (processContainer cfg c acc))) (snd (snd (processContainer cfg c acc)))
          (fst (processContainer cfg c acc))"
    using Cons.prems processContainer_grown[of s nv ni st cfg c] by (simp add: acc)
  then show ?case using Cons.IH by simp
qed

lemma detectMedia_grown:
  "grown st (newVideos (fst (detectMedia cfg document st))) (newImages (fst (detectMedia cfg document st)))
      (snd (detectMedia cfg document st))"
proof (cases document)
  case (Inl error)
  then show ?thesis by (simp add: detectMedia_def grown_def logMessage_caches)
next
  case (Inr cs)
  have g: "grown st (fst (snd (st, 0::nat, 0::nat))) (snd (snd (st, 0::nat, 0::nat))) (fst (st, 0::nat, 0::nat))"
    by (simp add: grown_def)
  show ?thesis
    using processContainer_fold_grown[OF g, of cfg cs]
    by (simp add: detectMedia_def Inr grown_def split_beta)
qed

text \<open>The error counters through a pass: each step can only add to \<open>pwa\<close>.\<close>

lemma pwaOnly_refl: "pwaOnly cfg s s"
  by (simp add: pwaOnly_def)

lemma pwaOnly_trans: "pwaOnly cfg s t \<Longrightarrow> pwaOnly cfg t u \<Longrightarrow> pwaOnly cfg s u"
  by (auto simp: pwaOnly_def)

lemma console_error_pwaOnly: "pwaOnly cfg st (console_error cfg args st)"
  by (simp add: console_error_def pwaOnly_def)

lemma logMessage_pwaOnly: "pwaOnly cfg st (logMessage cfg message level st)"
  by (simp add: logMessage_def console_error_pwaOnly pwaOnly_refl)

lemma extractVideoData_pwaOnly: "pwaOnly cfg st (snd (extractVideoData cfg c st))"
proof (cases "videoPlayer c")
  case None
  then show ?thesis by (simp add: extractVideoData_def logMessage_pwaOnly)
next
  case (Some v)
  then show ?thesis by (simp add: extractVideoData_def pwaOnly_def Let_def)
qed

lemma extractImage_pwaOnly: "pwaOnly cfg (snd acc) (snd (extractImage c i acc))"
  by (simp add: extractImage_def pwaOnly_def Let_def)

lemma extractImage_fold_pwaOnly:
  "pwaOnly cfg (snd acc) (snd (foldl (\<lambda>acc i. extractImage c i acc) acc is))"
proof (induction "is" arbitrary: acc)
  case Nil
  show ?case by (simp add: pwaOnly_refl)
next
  case (Cons i "is")
  show ?case using pwaOnly_trans[OF extractImage_pwaOnly Cons] by simp
qed

lemma extractImageData_pwaOnly: "pwaOnly cfg st (snd (extractImageData cfg c st))"
proof (cases "imageContainers c")
  case None
  then show ?thesis
    using pwaOnly_trans[OF logMessage_pwaOnly console_error_pwaOnly]
    by (simp add: extractImageData_def)
next
  case (Some cs)
  then show ?thesis
    using extractImage_fold_pwaOnly[of cfg "(0, st)"]
    by (simp add: extractImageData_def pwaOnly_refl)
qed

lemma processContainer_pwaOnly: "pwaOnly cfg (fst acc) (fst (processContainer cfg c acc))"
proof -
  obtain st nv ni where acc: "acc = (st, nv, ni)" by (cases acc)
  obtain n1 st1 where i: "extractImageData cfg c st = (n1, st1)" by (cases "extractImageData cfg c st")
  have s1: "pwaOnly cfg st st1" using extractImageData_pwaOnly[of cfg st c] by (simp add: i)
  have v: "\<And>s. pwaOnly cfg s (snd (extractVideoData cfg c s))" by (rule extractVideoData_pwaOnly)
  have v0: "pwaOnly cfg st (snd (extractVideoData cfg c st))" by (rule v)
  have v1: "pwaOnly cfg st (snd (extractVideoData cfg c st1))" by (rule pwaOnly_trans[OF s1 v])
  show ?thesis
    using s1 v0 v1
    by (simp add: processContainer_def tryContainer_def acc i pwaOnly_refl split_beta split: probe.splits)
qed

lemma processContainer_fold_pwaOnly:
  "pwaOnly cfg (fst acc) (fst (foldl (\<lambda>acc c. processContainer cfg c acc) acc cs))"
proof (induction cs arbitrary: acc)
  case Nil
  show ?case by (simp add: pwaOnly_refl)
next
  case (Cons c cs)
  show ?case using pwaOnly_trans[OF processContainer_pwaOnly Cons] by simp
qed

lemma detectMedia_pwaOnly: "pwaOnly cfg st (snd (detectMedia cfg document st))"
proof (cases document)
  case (Inl error)
  then show ?thesis by (simp add: detectMedia_def logMessage_pwaOnly)
next
  case (Inr cs)
  have "pwaOnly cfg st (fst (foldl (\<lambda>acc c. processContainer cfg c acc) (st, 0, 0) cs))"
    using processContainer_fold_pwaOnly[of cfg "(st, 0, 0)"] by simp
  then show ?thesis
    by (simp add: detectMedia_def Inr pwaOnly_def split_beta)
qed

lemma logMessage_not_ignored:
  "\<not> shouldIgnoreError message \<Longrightarrow> logMessage cfg message level st = st"
  by (simp add: logMessage_def console_error_def)

lemma processContainer_first_probe_raises:
  assumes "detectImages cfg" "imageProbe c = Raises"
  shows "processContainer cfg c acc = acc"
  using assms by (simp add: processContainer_def tryContainer_def split_beta)

lemma detectMedia_skips_raising:
  assumes "detectImages cfg" "imageProbe c = Raises"
  shows "detectMedia cfg (Inr (cs1 @ c # cs2)) st = detectMedia cfg (Inr (cs1 @ cs2)) st"
proof (cases "cs1 @ cs2 = []")
  case True
  then show ?thesis
    using processContainer_first_probe_raises[OF assms] by (simp add: detectMedia_def)
next
  case False
  then show ?thesis
    using processContainer_first_probe_raises[OF assms] by (simp add: detectMedia_def)
qed

text \<open>
  The test of the wrapper on two lines as \<^verbatim>\<open>log\<close> prints them, time of day and colour
  included, and on their messages alone.
\<close>

lemma log_line_examples:
  "shouldIgnoreError
     ''%c[TMA 3:45:12 PM] Error extracting video data: Cannot read properties of null color: #f4212e''
   = shouldIgnoreError ''Error extracting video data: Cannot read properties of null''"
  "shouldIgnoreError
     ''%c[TMA 3:45:12 PM] Error detecting media: Failed to fetch https://x.com/i/api/graphql color: #f4212e''
   = shouldIgnoreError ''Error detecting media: Failed to fetch https://x.com/i/api/graphql''"
  by code_simp+

text \<open>The sample failures: a probe that raises, and an extractor that raises.\<close>

lemma raisingTweet_fails:
  "tryContainer defaultConfig raisingTweet (initialState, 0, 0) = Inl (initialState, 0, 0)"
  by (simp add: tryContainer_def defaultConfig_def raisingTweet_def exampleTweet_def)

lemma typeError_line_not_ignored:
  "\<not> shouldIgnoreError ''Error extracting video data: Cannot read properties of null''"
  by code_simp

lemma typeError_not_ignored:
  "\<not> shouldIgnoreError (''Error extracting video data: '' @ errorMessage typeError)"
  using typeError_line_not_ignored by (simp add: typeError_def)

lemma blockedTweet_message:
  "errorMessage (raised blockedTweet) = ''Failed to fetch https://x.com/i/api/graphql/TweetDetail''"
  by (simp add: blockedTweet_def)

lemma blocked_line_ignored:
  "shouldIgnoreError ''Error extracting video data: Failed to fetch https://x.com/i/api/graphql/TweetDetail''"
  by code_simp

lemma blocked_ignored:
  "shouldIgnoreError (''Error extracting video data: '' @ errorMessage (raised blockedTweet))"
  using blocked_line_ignored by (simp add: blockedTweet_message)

lemma brokenTweet_fails:
  "extractVideoData defaultConfig brokenTweet st = (0, st)"
  using typeError_not_ignored
  by (simp add: extractVideoData_def brokenTweet_def exampleTweet_def logMessage_not_ignored)

lemma brokenTweet_processed:
  "processContainer defaultConfig brokenTweet (st, nv, ni) = (st, nv, ni)"
  using brokenTweet_fails[of st]
  by (simp add: processContainer_def tryContainer_def defaultConfig_def brokenTweet_def exampleTweet_def)

lemma blockedTweet_processed:
  "processContainer defaultConfig blockedTweet (st, nv, ni)
     = (st\<lparr>errors := (errors st)\<lparr>pwa := pwa (errors st) + 1\<rparr>\<rparr>, nv, ni)"
  using blocked_ignored
  by (simp add: processContainer_def tryContainer_def extractVideoData_def logMessage_def
        console_error_def defaultConfig_def blockedTweet_def brokenTweet_def exampleTweet_def)

lemma failing_pass:
  "detectMedia defaultConfig (Inr [raisingTweet, brokenTweet]) initialState
     = (\<lparr>newVideos = 0, newImages = 0\<rparr>, initialState)"
  using processContainer_first_probe_raises[of defaultConfig raisingTweet "(initialState, 0, 0)"]
    brokenTweet_processed[of initialState 0 0]
  by (simp add: detectMedia_def defaultConfig_def raisingTweet_def initialState_def)

text \<open>
  Claim C8 as stated fails on its counter: the state has the error counters \<open>pwa\<close>,
  \<open>api\<close>, \<open>network\<close> and the retry count, and none for detection. Here one container
  fails at a probe, which the \<^verbatim>\<open>catch\<close> of the container callback logs as a warning, and
  one fails inside the video extractor, whose own \<^verbatim>\<open>catch\<close> logs it and returns 0. Every
  error counter is 0 before and after the pass.
\<close>

theorem detection_failure_not_counted:
  "tryContainer defaultConfig raisingTweet (initialState, 0, 0) = Inl (initialState, 0, 0)
   \<and> videoPlayer brokenTweet = None
   \<and> extractVideoData defaultConfig brokenTweet initialState = (0, initialState)
   \<and> errors (snd (detectMedia defaultConfig (Inr [raisingTweet, brokenTweet]) initialState))
       = \<lparr>pwa = 0, api = 0, network = 0, retryCount = 0\<rparr>
   \<and> errors initialState = \<lparr>pwa = 0, api = 0, network = 0, retryCount = 0\<rparr>"
proof -
  have "errors initialState = \<lparr>pwa = 0, api = 0, network = 0, retryCount = 0\<rparr>"
    by (simp add: initialState_def)
  moreover have "videoPlayer brokenTweet = None" by (simp add: brokenTweet_def)
  ultimately show ?thesis
    using raisingTweet_fails brokenTweet_fails[of initialState] by (simp add: failing_pass)
qed

text \<open>
  Claim C8, amended. A pass of \<^verbatim>\<open>detectMedia\<close> always returns its counts, whatever the
  containers do, and the counts are the numbers of records the pass added to the video
  and to the image cache. When the body of a container fails, what it had done stays and
  the pass goes on with the next container; a container that fails at its first probe
  leaves no trace in the result of the pass. An exception inside the video extractor is
  caught there: the extractor logs it and returns 0. A failure increments no detection
  error counter, the state having none: of the error counters a pass can change \<open>pwa\<close>
  only, by one for a line logged at level \<^verbatim>\<open>error\<close> that holds an ignore pattern, when
  \<^verbatim>\<open>ignorePwaErrors\<close> is set; a line without a pattern changes nothing.
\<close>

theorem detectMedia_isolates_failures:
  "pwaOnly cfg st (snd (detectMedia cfg document st))
   \<and> Map_size (videoCache (snd (detectMedia cfg document st)))
       = Map_size (videoCache st) + newVideos (fst (detectMedia cfg document st))
   \<and> Map_size (imageCache (snd (detectMedia cfg document st)))
       = Map_size (imageCache st) + newImages (fst (detectMedia cfg document st))
   \<and> (tryContainer cfg c acc = Inl a \<longrightarrow>
         processContainer cfg c acc = a
       \<and> foldl (\<lambda>acc c. processContainer cfg c acc) acc (c # cs)
           = foldl (\<lambda>acc c. processContainer cfg c acc) a cs)
   \<and> (detectImages cfg \<and> imageProbe c = Raises \<longrightarrow>
         detectMedia cfg (Inr (cs1 @ c # cs2)) st = detectMedia cfg (Inr (cs1 @ cs2)) st)
   \<and> (videoPlayer c = None \<longrightarrow>
         extractVideoData cfg c st
           = (0, logMessage cfg (''Error extracting video data: '' @ errorMessage (raised c)) ''error'' st)
       \<and> (\<not> shouldIgnoreError (''Error extracting video data: '' @ errorMessage (raised c))
            \<longrightarrow> extractVideoData cfg c st = (0, st))
       \<and> (ignorePwaErrors cfg \<and> shouldIgnoreError (''Error extracting video data: '' @ errorMessage (raised c))
            \<longrightarrow> extractVideoData cfg c st = (0, st\<lparr>errors := (errors st)\<lparr>pwa := pwa (errors st) + 1\<rparr>\<rparr>)))"
proof -
  have 1: "pwaOnly cfg st (snd (detectMedia cfg document st))"
    by (rule detectMedia_pwaOnly)
  have 2: "Map_size (videoCache (snd (detectMedia cfg document st)))
       = Map_size (videoCache st) + newVideos (fst (detectMedia cfg document st))"
    and 3: "Map_size (imageCache (snd (detectMedia cfg document st)))
       = Map_size (imageCache st) + newImages (fst (detectMedia cfg document st))"
    using detectMedia_grown[of st cfg document] by (simp_all add: grown_def)
  have 4: "tryContainer cfg c acc = Inl a \<longrightarrow>
         processContainer cfg c acc = a
       \<and> foldl (\<lambda>acc c. processContainer cfg c acc) acc (c # cs)
           = foldl (\<lambda>acc c. processContainer cfg c acc) a cs"
    by (simp add: processContainer_def)
  have 5: "detectImages cfg \<and> imageProbe c = Raises \<longrightarrow>
         detectMedia cfg (Inr (cs1 @ c # cs2)) st = detectMedia cfg (Inr (cs1 @ cs2)) st"
    using detectMedia_skips_raising by blast
  have 6: "videoPlayer c = None \<longrightarrow>
         extractVideoData cfg c st
           = (0, logMessage cfg (''Error extracting video data: '' @ errorMessage (raised c)) ''error'' st)
       \<and> (\<not> shouldIgnoreError (''Error extracting video data: '' @ errorMessage (raised c))
            \<longrightarrow> extractVideoData cfg c st = (0, st))
       \<and> (ignorePwaErrors cfg \<and> shouldIgnoreError (''Error extracting video data: '' @ errorMessage (raised c))
            \<longrightarrow> extractVideoData cfg c st = (0, st\<lparr>errors := (errors st)\<lparr>pwa := pwa (errors st) + 1\<rparr>\<rparr>))"
    by (simp add: extractVideoData_def logMessage_def console_error_def)
  from 1 2 3 4 5 6 show ?thesis by blast
qed

theorem detectMedia_isolates_failures_witness:
  "processContainer defaultConfig raisingTweet (initialState, 0, 0) = (initialState, 0, 0)
   \<and> detectMedia defaultConfig (Inr [raisingTweet, brokenTweet]) initialState
       = detectMedia defaultConfig (Inr [brokenTweet]) initialState
   \<and> extractVideoData defaultConfig brokenTweet initialState = (0, initialState)
   \<and> extractVideoData defaultConfig blockedTweet initialState
       = (0, initialState\<lparr>errors := \<lparr>pwa = 1, api = 0, network = 0, retryCount = 0\<rparr>\<rparr>)
   \<and> api (errors (snd (detectMedia defaultConfig (Inr [raisingTweet, blockedTweet]) initialState))) = 0"
proof -
  have h: "detectImages defaultConfig \<and> imageProbe raisingTweet = Raises"
    by (simp add: defaultConfig_def raisingTweet_def)
  have n: "videoPlayer brokenTweet = None" "videoPlayer blockedTweet = None"
    "raised brokenTweet = typeError" "ignorePwaErrors defaultConfig"
    by (simp_all add: brokenTweet_def blockedTweet_def exampleTweet_def defaultConfig_def)
  have e: "(errors initialState)\<lparr>pwa := pwa (errors initialState) + 1\<rparr>
             = \<lparr>pwa = 1, api = 0, network = 0, retryCount = 0\<rparr>"
    "api (errors initialState) = 0"
    by (simp_all add: initialState_def)
  note t = detectMedia_isolates_failures[where cfg=defaultConfig and c=raisingTweet
      and acc="(initialState, 0, 0)" and a="(initialState, 0, 0)" and st=initialState
      and ?cs1.0="[]" and ?cs2.0="[brokenTweet]" and cs="[]"
      and document="Inr [raisingTweet, blockedTweet]"]
  note u = detectMedia_isolates_failures[where cfg=defaultConfig and c=brokenTweet and st=initialState
      and acc="(initialState, 0, 0)" and a="(initialState, 0, 0)" and cs="[]"
      and ?cs1.0="[]" and ?cs2.0="[]" and document="Inr []"]
  note w = detectMedia_isolates_failures[where cfg=defaultConfig and c=blockedTweet and st=initialState
      and acc="(initialState, 0, 0)" and a="(initialState, 0, 0)" and cs="[]"
      and ?cs1.0="[]" and ?cs2.0="[]" and document="Inr []"]
  from t raisingTweet_fails
  have a: "processContainer defaultConfig raisingTweet (initialState, 0, 0) = (initialState, 0, 0)"
    by blast
  from t h
  have b: "detectMedia defaultConfig (Inr [raisingTweet, brokenTweet]) initialState
       = detectMedia defaultConfig (Inr [brokenTweet]) initialState"
    by simp
  have nb: "\<not> shouldIgnoreError (''Error extracting video data: '' @ errorMessage (raised brokenTweet))"
    using typeError_not_ignored by (simp add: n(3))
  from u n(1) nb
  have c: "extractVideoData defaultConfig brokenTweet initialState = (0, initialState)"
    by blast
  from w n(2,4) blocked_ignored
  have "extractVideoData defaultConfig blockedTweet initialState
       = (0, initialState\<lparr>errors := (errors initialState)\<lparr>pwa := pwa (errors initialState) + 1\<rparr>\<rparr>)"
    by blast
  then have d: "extractVideoData defaultConfig blockedTweet initialState
       = (0, initialState\<lparr>errors := \<lparr>pwa = 1, api = 0, network = 0, retryCount = 0\<rparr>\<rparr>)"
    by (simp only: e)
  from t
  have "pwaOnly defaultConfig initialState
          (snd (detectMedia defaultConfig (Inr [raisingTweet, blockedTweet]) initialState))"
    by blast
  then have f: "api (errors (snd (detectMedia defaultConfig (Inr [raisingTweet, blockedTweet]) initialState))) = 0"
    by (simp add: pwaOnly_def e)
  from a b c d f show ?thesis by blast
qed

section \<open>Stability termination\<close>

lemma passDetect_stabilityCounter:
  "stabilityCounter (snd (passDetect cfg e vb ib st))
     = (if fst (passDetect cfg e vb ib st) > 0 then 0 else stabilityCounter st + 1)"
  using detectMedia_frame[of "if stopRequested e then stop st else st" cfg "documentAtDetection e"]
  by (simp add: passDetect_def stabilityUpdate_def sameSession_def stop_def Let_def)

lemma checkCacheSize_stabilityCounter: "stabilityCounter (checkCacheSize cfg st) = stabilityCounter st"
  by (simp add: checkCacheSize_def Let_def)

lemma scrollStep_stabilityRule:
  assumes "scrollStep cfg env k d ce st = (st', reason, logs)"
  shows "stabilityRule (stabilityThreshold cfg) (stabilityCounter st) logs reason"
  using assms
proof (induction cfg env k d ce st arbitrary: st' reason logs rule: scrollStep.induct)
  case (1 cfg env k currentDelay consecutiveErrors st)
  note eq = "1.prems"[unfolded scrollStep.simps[of cfg env k currentDelay consecutiveErrors st] Let_def]
  show ?case
  proof (cases "\<not> isScrolling st \<or> scrollCount st \<ge> maxScrollAttempts cfg
                \<or> (scrollRaises (env k) \<and> consecutiveErrors + 1 \<ge> 5)")
    case True
    then have "logs = [] \<and> reason \<noteq> Stabilized" using eq by (auto split: if_splits)
    then show ?thesis by simp
  next
    case False
    let ?st1 = "if scrollRaises (env k)
                then scrollErrorLogged cfg (scrollError (env k)) (consecutiveErrors + 1) st
                else st\<lparr>scrollCount := scrollCount st + 1\<rparr>"
    let ?errs = "if scrollRaises (env k) then consecutiveErrors + 1 else 0"
    let ?delay = "if scrollRaises (env k) then min (currentDelay * (3 / 2)) 10000 else scrollDelay cfg"
    let ?detected = "passDetect cfg (env k) (Map_size (videoCache st)) (Map_size (imageCache st)) ?st1"
    let ?st4 = "snd ?detected"
    let ?entry = "\<lparr>logScroll = scrollCount ?st4, logNewMedia = fst ?detected,
                     logStability = stabilityCounter ?st4\<rparr>"
    have c1: "stabilityCounter ?st1 = stabilityCounter st"
      using scrollErrorLogged_frame[of st cfg "scrollError (env k)" "consecutiveErrors + 1"]
      by (simp add: sameSession_def)
    have upd: "stabilityCounter ?st4 = (if fst ?detected > 0 then 0 else stabilityCounter st + 1)"
      using passDetect_stabilityCounter[of cfg "env k" "Map_size (videoCache st)" "Map_size (imageCache st)" ?st1]
      unfolding c1 .
    show ?thesis
    proof (cases "stabilityCounter ?st4 \<ge> stabilityThreshold cfg")
      case True
      then have "logs = [?entry] \<and> reason = Stabilized"
        using eq False by (simp split: if_splits)
      then show ?thesis using upd True by simp
    next
      case nstab: False
      obtain s2 r2 l2 where rec: "scrollStep cfg env (k + 1) ?delay ?errs (checkCacheSize cfg ?st4) = (s2, r2, l2)"
        by (metis prod_cases3)
      have res: "logs = ?entry # l2 \<and> reason = r2"
        using eq False nstab rec by (simp split: if_splits)
      have a: "\<not> \<not> isScrolling st" "\<not> maxScrollAttempts cfg \<le> scrollCount st"
        "\<not> (scrollRaises (env k) \<and> 5 \<le> consecutiveErrors + 1)"
        using False by auto
      have "stabilityRule (stabilityThreshold cfg) (stabilityCounter (checkCacheSize cfg ?st4)) l2 r2"
        by (rule "1.IH"[OF a refl refl refl refl refl refl nstab rec])
      then have "stabilityRule (stabilityThreshold cfg) (stabilityCounter ?st4) l2 r2"
        by (simp only: checkCacheSize_stabilityCounter)
      then show ?thesis using res upd nstab by simp
    qed
  qed
qed


lemma scrollStep_not_scrolling:
  assumes "scrollStep cfg env k d ce st = (st', reason, logs)"
  shows "\<not> isScrolling st'"
  using assms
proof (induction cfg env k d ce st arbitrary: st' reason logs rule: scrollStep.induct)
  case (1 cfg env k currentDelay consecutiveErrors st)
  note eq = "1.prems"[unfolded scrollStep.simps[of cfg env k currentDelay consecutiveErrors st] Let_def]
  show ?case
  proof (cases "\<not> isScrolling st \<or> scrollCount st \<ge> maxScrollAttempts cfg
                \<or> (scrollRaises (env k) \<and> consecutiveErrors + 1 \<ge> 5)")
    case True
    then show ?thesis using eq by (auto split: if_splits)
  next
    case False
    let ?st1 = "if scrollRaises (env k)
                then scrollErrorLogged cfg (scrollError (env k)) (consecutiveErrors + 1) st
                else st\<lparr>scrollCount := scrollCount st + 1\<rparr>"
    let ?errs = "if scrollRaises (env k) then consecutiveErrors + 1 else 0"
    let ?delay = "if scrollRaises (env k) then min (currentDelay * (3 / 2)) 10000 else scrollDelay cfg"
    let ?detected = "passDetect cfg (env k) (Map_size (videoCache st)) (Map_size (imageCache st)) ?st1"
    let ?st4 = "snd ?detected"
    show ?thesis
    proof (cases "stabilityCounter ?st4 \<ge> stabilityThreshold cfg")
      case True
      then show ?thesis using eq False by (auto split: if_splits)
    next
      case nstab: False
      obtain s2 r2 l2 where rec: "scrollStep cfg env (k + 1) ?delay ?errs (checkCacheSize cfg ?st4) = (s2, r2, l2)"
        by (metis prod_cases3)
      have res: "st' = s2"
        using eq False nstab rec by (simp split: if_splits)
      have a: "\<not> \<not> isScrolling st" "\<not> maxScrollAttempts cfg \<le> scrollCount st"
        "\<not> (scrollRaises (env k) \<and> 5 \<le> consecutiveErrors + 1)"
        using False by auto
      have "\<not> isScrolling s2"
        by (rule "1.IH"[OF a refl refl refl refl refl refl nstab rec])
      then show ?thesis by (simp add: res)
    qed
  qed
qed

lemma stabilityRule_tail:
  assumes "stabilityRule T c (l # logs) reason" and "\<not> T \<le> logStability l"
  shows "stabilityRule T (logStability l) logs reason"
proof -
  from assms(1)
  have "if T \<le> logStability l then logs = [] \<and> reason = Stabilized
        else stabilityRule T (logStability l) logs reason"
    unfolding stabilityRule.simps by (rule conjunct2)
  with assms(2) show ?thesis by simp
qed

lemma stabilityRule_last:
  assumes "stabilityRule T c (l # logs) reason" and "T \<le> logStability l"
  shows "logs = [] \<and> reason = Stabilized"
proof -
  from assms(1)
  have "if T \<le> logStability l then logs = [] \<and> reason = Stabilized
        else stabilityRule T (logStability l) logs reason"
    unfolding stabilityRule.simps by (rule conjunct2)
  with assms(2) show ?thesis by simp
qed

lemma stabilityRule_head:
  assumes "stabilityRule T c (l # logs) reason"
  shows "logStability l = (if logNewMedia l > 0 then 0 else c + 1)"
  using assms unfolding stabilityRule.simps by (rule conjunct1)

lemma stabilityRule_update:
  assumes "stabilityRule T c logs reason" and "i < length logs"
  shows "logStability (logs ! i)
         = (if logNewMedia (logs ! i) > 0 then 0
            else (if i = 0 then c else logStability (logs ! (i - 1))) + 1)"
  using assms
proof (induction logs arbitrary: c i)
  case Nil
  then show ?case by simp
next
  case (Cons l logs)
  show ?case
  proof (cases i)
    case 0
    then show ?thesis using stabilityRule_head[OF Cons.prems(1)] by simp
  next
    case (Suc n)
    then have n: "n < length logs" using Cons.prems by simp
    then have "logs \<noteq> []" by auto
    then have "\<not> T \<le> logStability l" using stabilityRule_last[OF Cons.prems(1)] by blast
    then have r: "stabilityRule T (logStability l) logs reason"
      by (rule stabilityRule_tail[OF Cons.prems(1)])
    show ?thesis using Cons.IH[OF r n] Suc by (cases n) simp_all
  qed
qed

lemma stabilityRule_stop:
  assumes "stabilityRule T c logs reason" and "i < length logs"
  shows "(T \<le> logStability (logs ! i)) = (Suc i = length logs \<and> reason = Stabilized)"
  using assms
proof (induction logs arbitrary: c i)
  case Nil
  then show ?case by simp
next
  case (Cons l logs)
  show ?case
  proof (cases "T \<le> logStability l")
    case True
    then have "logs = [] \<and> reason = Stabilized" by (rule stabilityRule_last[OF Cons.prems(1)])
    then show ?thesis using True Cons.prems(2) by simp
  next
    case False
    then have r: "stabilityRule T (logStability l) logs reason"
      by (rule stabilityRule_tail[OF Cons.prems(1)])
    show ?thesis
    proof (cases i)
      case 0
      have "logs = [] \<longrightarrow> reason \<noteq> Stabilized" using r by auto
      then show ?thesis using 0 False by auto
    next
      case (Suc n)
      then have n: "n < length logs" using Cons.prems by simp
      show ?thesis using Cons.IH[OF r n] Suc by simp
    qed
  qed
qed

lemma stabilityRule_nonempty:
  "stabilityRule T c logs Stabilized \<Longrightarrow> logs \<noteq> []"
  by (cases logs) auto

lemma run_length_lower:
  fixes cnt :: "nat \<Rightarrow> nat" and y :: "nat \<Rightarrow> int"
  assumes rec: "\<And>i. i < n \<Longrightarrow> cnt i = (if y i > 0 then 0 else (if i = 0 then c else cnt (i - 1)) + 1)"
    and "i < n" and "m \<le> Suc i" and "\<forall>j. Suc i - m \<le> j \<and> j \<le> i \<longrightarrow> y j \<le> 0"
  shows "m \<le> cnt i"
  using assms(2-)
proof (induction i arbitrary: m)
  case 0
  then have "m = 0 \<or> (m = 1 \<and> y 0 \<le> 0)" by (cases m) auto
  then show ?case using rec[of 0] 0 by auto
next
  case (Suc i)
  show ?case
  proof (cases m)
    case 0
    then show ?thesis by simp
  next
    case (Suc m')
    have y: "y (Suc i) \<le> 0" using Suc.prems Suc by auto
    have "m' \<le> cnt i"
    proof (rule Suc.IH)
      show "i < n" using Suc.prems by simp
      show "m' \<le> Suc i" using Suc.prems Suc by simp
      show "\<forall>j. Suc i - m' \<le> j \<and> j \<le> i \<longrightarrow> y j \<le> 0"
        using Suc.prems(3) Suc by auto
    qed
    then show ?thesis using rec[of "Suc i"] Suc.prems(1) y Suc by simp
  qed
qed

lemma run_length_zeros:
  fixes cnt :: "nat \<Rightarrow> nat" and y :: "nat \<Rightarrow> int"
  assumes rec: "\<And>i. i < n \<Longrightarrow> cnt i = (if y i > 0 then 0 else (if i = 0 then c else cnt (i - 1)) + 1)"
    and "i < n"
  shows "cnt i \<le> Suc i + c \<and> (\<forall>j. Suc i - cnt i \<le> j \<and> j \<le> i \<longrightarrow> y j \<le> 0)"
  using assms(2)
proof (induction i)
  case 0
  then show ?case using rec[of 0] by auto
next
  case (Suc i)
  then have IH: "cnt i \<le> Suc i + c" "\<forall>j. Suc i - cnt i \<le> j \<and> j \<le> i \<longrightarrow> y j \<le> 0" by auto
  show ?case
  proof (cases "y (Suc i) > 0")
    case True
    then show ?thesis using rec[of "Suc i"] Suc.prems by simp
  next
    case False
    then have c: "cnt (Suc i) = cnt i + 1" using rec[of "Suc i"] Suc.prems by simp
    have "\<forall>j. Suc (Suc i) - cnt (Suc i) \<le> j \<and> j \<le> Suc i \<longrightarrow> y j \<le> 0"
    proof (intro allI impI)
      fix j assume j: "Suc (Suc i) - cnt (Suc i) \<le> j \<and> j \<le> Suc i"
      show "y j \<le> 0"
      proof (cases "j = Suc i")
        case True
        then show ?thesis using False by simp
      next
        case False
        then have "Suc i - cnt i \<le> j \<and> j \<le> i" using j c by auto
        then show ?thesis using IH(2) by blast
      qed
    qed
    then show ?thesis using c IH(1) by simp
  qed
qed

text \<open>
  Claim C2. In every run of \<^verbatim>\<open>infiniteScroll\<close>, with \<open>logs\<close> the status lines of its passes
  in order: a pass that finds new media leaves the stability counter at 0 and any other
  pass raises it by one; the counter of a pass is at or above the threshold exactly when
  that pass is the last one and the loop ended on stability; so when the
  \<open>stabilityThreshold\<close> most recent passes each found nothing, the loop stops at that very
  pass. When the loop ends on stability it has stopped scrolling, the counter equals the
  threshold, and the last \<open>stabilityThreshold\<close> passes found nothing.
\<close>

theorem stability_termination:
  assumes "infiniteScroll cfg env st = (st', reason, logs)"
  shows "(\<forall>i<length logs. logStability (logs ! i)
            = (if 0 < logNewMedia (logs ! i) then 0
               else (if i = 0 then 0 else logStability (logs ! (i - 1))) + 1))
       \<and> (\<forall>i<length logs. (stabilityThreshold cfg \<le> logStability (logs ! i))
            = (Suc i = length logs \<and> reason = Stabilized))
       \<and> (\<forall>i<length logs. stabilityThreshold cfg \<le> Suc i
            \<and> (\<forall>j. Suc i - stabilityThreshold cfg \<le> j \<and> j \<le> i \<longrightarrow> logNewMedia (logs ! j) \<le> 0)
            \<longrightarrow> Suc i = length logs \<and> reason = Stabilized)
       \<and> (reason = Stabilized \<longrightarrow> logs \<noteq> [] \<and> \<not> isScrolling st')
       \<and> (reason = Stabilized \<and> 0 < stabilityThreshold cfg \<longrightarrow>
            logStability (last logs) = stabilityThreshold cfg
          \<and> stabilityThreshold cfg \<le> length logs
          \<and> (\<forall>j. length logs - stabilityThreshold cfg \<le> j \<and> j < length logs
                \<longrightarrow> logNewMedia (logs ! j) \<le> 0))"
proof -
  let ?T = "stabilityThreshold cfg"
  let ?s0 = "st\<lparr>isScrolling := True, scrollCount := 0, stabilityCounter := 0\<rparr>"
  have run: "scrollStep cfg env 0 (scrollDelay cfg) 0 ?s0 = (st', reason, logs)"
    using assms by (simp add: infiniteScroll_def)
  have "stabilityRule ?T (stabilityCounter ?s0) logs reason"
    by (rule scrollStep_stabilityRule[OF run])
  then have rule: "stabilityRule ?T 0 logs reason" by simp
  have upd: "\<And>i. i < length logs \<Longrightarrow> logStability (logs ! i)
            = (if 0 < logNewMedia (logs ! i) then 0
               else (if i = 0 then 0 else logStability (logs ! (i - 1))) + 1)"
    by (rule stabilityRule_update[OF rule])
  have stp: "\<And>i. i < length logs \<Longrightarrow> (?T \<le> logStability (logs ! i))
            = (Suc i = length logs \<and> reason = Stabilized)"
    by (rule stabilityRule_stop[OF rule])
  have 3: "\<forall>i<length logs. ?T \<le> Suc i
            \<and> (\<forall>j. Suc i - ?T \<le> j \<and> j \<le> i \<longrightarrow> logNewMedia (logs ! j) \<le> 0)
            \<longrightarrow> Suc i = length logs \<and> reason = Stabilized"
  proof (intro allI impI)
    fix i assume i: "i < length logs"
      and h: "?T \<le> Suc i \<and> (\<forall>j. Suc i - ?T \<le> j \<and> j \<le> i \<longrightarrow> logNewMedia (logs ! j) \<le> 0)"
    have "?T \<le> logStability (logs ! i)"
      using run_length_lower[of "length logs" "\<lambda>i. logStability (logs ! i)" "\<lambda>i. logNewMedia (logs ! i)" 0 i ?T]
        upd i h by blast
    then show "Suc i = length logs \<and> reason = Stabilized" using stp[OF i] by simp
  qed
  have 4: "reason = Stabilized \<longrightarrow> logs \<noteq> [] \<and> \<not> isScrolling st'"
    using stabilityRule_nonempty rule scrollStep_not_scrolling[OF run] by blast
  have 5: "reason = Stabilized \<and> 0 < ?T \<longrightarrow>
            logStability (last logs) = ?T \<and> ?T \<le> length logs
          \<and> (\<forall>j. length logs - ?T \<le> j \<and> j < length logs \<longrightarrow> logNewMedia (logs ! j) \<le> 0)"
  proof (intro impI)
    assume a: "reason = Stabilized \<and> 0 < ?T"
    then have ne: "logs \<noteq> []" using 4 by blast
    define i where "i = length logs - 1"
    have i: "i < length logs" "Suc i = length logs" using ne by (simp_all add: i_def)
    have ge: "?T \<le> logStability (logs ! i)" using stp[OF i(1)] i(2) a by simp
    have le: "logStability (logs ! i) \<le> ?T"
    proof (cases "0 < logNewMedia (logs ! i)")
      case True
      then show ?thesis using upd[OF i(1)] by simp
    next
      case False
      show ?thesis
      proof (cases "i = 0")
        case True
        then show ?thesis using upd[OF i(1)] False a by simp
      next
        case nz: False
        then have p: "i - 1 < length logs" "Suc (i - 1) \<noteq> length logs" using i by auto
        then have "\<not> ?T \<le> logStability (logs ! (i - 1))" using stp[OF p(1)] by simp
        then show ?thesis using upd[OF i(1)] False nz by simp
      qed
    qed
    have eq: "logStability (logs ! i) = ?T" using ge le by simp
    have z: "logStability (logs ! i) \<le> Suc i + 0
        \<and> (\<forall>j. Suc i - logStability (logs ! i) \<le> j \<and> j \<le> i \<longrightarrow> logNewMedia (logs ! j) \<le> 0)"
      using run_length_zeros[of "length logs" "\<lambda>i. logStability (logs ! i)" "\<lambda>i. logNewMedia (logs ! i)" 0 i]
        upd i(1) by blast
    have l: "last logs = logs ! i" using ne by (simp add: i_def last_conv_nth)
    have "\<forall>j. length logs - ?T \<le> j \<and> j < length logs \<longrightarrow> logNewMedia (logs ! j) \<le> 0"
      using z eq i(2) by (metis less_Suc_eq_le)
    then show "logStability (last logs) = ?T \<and> ?T \<le> length logs
          \<and> (\<forall>j. length logs - ?T \<le> j \<and> j < length logs \<longrightarrow> logNewMedia (logs ! j) \<le> 0)"
      using eq l z i(2) by simp
  qed
  from upd stp 3 4 5 show ?thesis by blast
qed

lemma quiet_run:
  "snd (infiniteScroll smallConfig quietEnv initialState)
     = (Stabilized, [\<lparr>logScroll = 1, logNewMedia = 0, logStability = 1\<rparr>,
                     \<lparr>logScroll = 2, logNewMedia = 0, logStability = 2\<rparr>])"
  by (simp add: infiniteScroll_def scrollStep.simps passDetect_def detectMedia_def stabilityUpdate_def
        checkCacheSize_def smallConfig_def quietEnv_def initialState_def Map_size_def Let_def)

lemma busy_run:
  "snd (infiniteScroll smallConfig videoEnv initialState)
     = (Stabilized, [\<lparr>logScroll = 1, logNewMedia = 1, logStability = 0\<rparr>,
                     \<lparr>logScroll = 2, logNewMedia = 0, logStability = 1\<rparr>,
                     \<lparr>logScroll = 3, logNewMedia = 0, logStability = 2\<rparr>])"
  by (simp add: infiniteScroll_def scrollStep.simps passDetect_def detectMedia_def stabilityUpdate_def
        processContainer_def tryContainer_def extractVideoData_def
        startsWith_def videoSrcOf_def posterSrcOf_def
        exampleTweet_def exampleVideo_def Map_has_def Map_values_def durationOf_def
        checkCacheSize_def smallConfig_def videoEnv_def initialState_def Map_size_def Let_def)

theorem stability_termination_witness:
  "snd (infiniteScroll smallConfig videoEnv initialState)
     = (Stabilized, [\<lparr>logScroll = 1, logNewMedia = 1, logStability = 0\<rparr>,
                     \<lparr>logScroll = 2, logNewMedia = 0, logStability = 1\<rparr>,
                     \<lparr>logScroll = 3, logNewMedia = 0, logStability = 2\<rparr>])
   \<and> logStability (last (snd (snd (infiniteScroll smallConfig videoEnv initialState))))
       = stabilityThreshold smallConfig
   \<and> \<not> isScrolling (fst (infiniteScroll smallConfig videoEnv initialState))"
proof -
  let ?logs = "[\<lparr>logScroll = 1, logNewMedia = 1, logStability = 0\<rparr>,
                \<lparr>logScroll = 2, logNewMedia = 0, logStability = 1\<rparr>,
                \<lparr>logScroll = 3, logNewMedia = 0, logStability = 2\<rparr>]"
  have run: "infiniteScroll smallConfig videoEnv initialState
      = (fst (infiniteScroll smallConfig videoEnv initialState), Stabilized, ?logs)"
    using busy_run by (simp add: prod_eq_iff)
  have t: "0 < stabilityThreshold smallConfig" by (simp add: smallConfig_def)
  from stability_termination[OF run] t
  have a: "logStability (last ?logs) = stabilityThreshold smallConfig"
    and b: "\<not> isScrolling (fst (infiniteScroll smallConfig videoEnv initialState))"
    by blast+
  from a have "logStability (last (snd (snd (infiniteScroll smallConfig videoEnv initialState))))
       = stabilityThreshold smallConfig"
    by (simp add: busy_run)
  then show ?thesis using busy_run b by blast
qed

section \<open>Stop and start\<close>

text \<open>
  One iteration of the loop is a call of \<^verbatim>\<open>scrollStep()\<close> up to its timer, a stop command
  when one arrives during the wait, and the callback of the timer.
\<close>

lemma scrollStep_by_steps:
  "scrollStep cfg env k d ce st =
     (case scrollStepEntry cfg (env k) d ce st of
        (st1, Inl reason) \<Rightarrow> (st1, reason, [])
      | (st1, Inr t) \<Rightarrow>
          (case timerCallback cfg (documentAtDetection (env k)) t
                  (if stopRequested (env k) then stop st1 else st1) of
             (entry, st4) \<Rightarrow>
               if stabilityCounter st4 \<ge> stabilityThreshold cfg
               then (st4\<lparr>isScrolling := False\<rparr>, Stabilized, [entry])
               else (case scrollStep cfg env (k + 1) (timerDelay t) (timerErrors t) (checkCacheSize cfg st4) of
                       (st', reason, logs) \<Rightarrow> (st', reason, entry # logs))))"
  by (subst scrollStep.simps)
     (simp add: scrollStepEntry_def timerCallback_def passDetect_def Let_def)

lemma extended_refl: "extended s s"
  by (simp add: extended_def)

lemma extended_trans: "extended s t \<Longrightarrow> extended t u \<Longrightarrow> extended s u"
  by (auto simp: extended_def)

lemma logMessage_extended: "extended st (logMessage cfg message level st)"
  by (simp add: extended_def logMessage_caches)

lemma console_error_extended: "extended st (console_error cfg args st)"
  by (simp add: extended_def console_error_caches)

lemma extractVideoData_extended: "extended st (snd (extractVideoData cfg c st))"
proof (cases "videoPlayer c")
  case None
  then show ?thesis by (simp add: extractVideoData_def logMessage_extended)
next
  case (Some v)
  then show ?thesis by (simp add: extractVideoData_def extended_def Let_def Map_set_fresh)
qed

lemma extractImage_extended: "extended (snd acc) (snd (extractImage c i acc))"
  by (simp add: extractImage_def extended_def Let_def Map_set_fresh)

lemma extractImage_fold_extended:
  "extended (snd acc) (snd (foldl (\<lambda>acc i. extractImage c i acc) acc is))"
proof (induction "is" arbitrary: acc)
  case Nil
  show ?case by (simp add: extended_refl)
next
  case (Cons i "is")
  show ?case using extended_trans[OF extractImage_extended Cons] by simp
qed

lemma extractImageData_extended: "extended st (snd (extractImageData cfg c st))"
proof (cases "imageContainers c")
  case None
  then show ?thesis
    using extended_trans[OF logMessage_extended console_error_extended]
    by (simp add: extractImageData_def)
next
  case (Some cs)
  then show ?thesis
    using extractImage_fold_extended[of "(0, st)"]
    by (simp add: extractImageData_def extended_refl)
qed

lemma processContainer_extended: "extended (fst acc) (fst (processContainer cfg c acc))"
proof -
  obtain st nv ni where acc: "acc = (st, nv, ni)" by (cases acc)
  obtain n1 st1 where i: "extractImageData cfg c st = (n1, st1)" by (cases "extractImageData cfg c st")
  have s1: "extended st st1" using extractImageData_extended[of st cfg c] by (simp add: i)
  have v: "\<And>s. extended s (snd (extractVideoData cfg c s))" by (rule extractVideoData_extended)
  have v0: "extended st (snd (extractVideoData cfg c st))" by (rule v)
  have v1: "extended st (snd (extractVideoData cfg c st1))" by (rule extended_trans[OF s1 v])
  show ?thesis
    using s1 v0 v1
    by (simp add: processContainer_def tryContainer_def acc i extended_refl split_beta split: probe.splits)
qed

lemma processContainer_fold_extended:
  "extended (fst acc) (fst (foldl (\<lambda>acc c. processContainer cfg c acc) acc cs))"
proof (induction cs arbitrary: acc)
  case Nil
  show ?case by (simp add: extended_refl)
next
  case (Cons c cs)
  show ?case using extended_trans[OF processContainer_extended Cons] by simp
qed

lemma detectMedia_extended: "extended st (snd (detectMedia cfg document st))"
proof (cases document)
  case (Inl error)
  then show ?thesis by (simp add: detectMedia_def logMessage_extended)
next
  case (Inr cs)
  have "extended st (fst (foldl (\<lambda>acc c. processContainer cfg c acc) (st, 0, 0) cs))"
    using processContainer_fold_extended[of "(st, 0, 0)"] by simp
  then show ?thesis
    by (simp add: detectMedia_def Inr extended_def split_beta)
qed

text \<open>
  While the analyzer is paused (not scrolling, not processing) a timer that fires runs
  its callback and ends its loop: the analyzer stays paused, \<open>scrollCount\<close> stays, and the
  timer is gone from the pending ones.
\<close>

lemma timerCallback_frame: "sameSession st (snd (timerCallback cfg document t st))
    \<or> (\<exists>c l. sameSession (st\<lparr>stabilityCounter := c, lastMediaDiscoveryScroll := l\<rparr>)
                (snd (timerCallback cfg document t st)))"
  using detectMedia_frame[of st cfg document]
  by (auto simp: timerCallback_def stabilityUpdate_def sameSession_def Let_def)

lemma timerCallback_flags:
  "isScrolling (snd (timerCallback cfg document t st)) = isScrolling st"
  "isProcessing (snd (timerCallback cfg document t st)) = isProcessing st"
  "isAnalyzing (snd (timerCallback cfg document t st)) = isAnalyzing st"
  "scrollCount (snd (timerCallback cfg document t st)) = scrollCount st"
  using detectMedia_frame[of st cfg document]
  by (simp_all add: timerCallback_def stabilityUpdate_def sameSession_def Let_def)

lemma checkCacheSize_flags:
  "isScrolling (checkCacheSize cfg st) = isScrolling st"
  "isProcessing (checkCacheSize cfg st) = isProcessing st"
  "isAnalyzing (checkCacheSize cfg st) = isAnalyzing st"
  by (simp_all add: checkCacheSize_def Let_def)

lemma timerFires_paused:
  assumes "\<not> isScrolling (analyzer s)" and "\<not> isProcessing (analyzer s)"
  shows "\<not> isScrolling (analyzer (timerFires cfg i document e now s))"
    and "\<not> isProcessing (analyzer (timerFires cfg i document e now s))"
    and "scrollCount (analyzer (timerFires cfg i document e now s)) = scrollCount (analyzer s)"
    and "pending (timerFires cfg i document e now s)
           = (if i < length (pending s) then take i (pending s) @ drop (Suc i) (pending s) else pending s)"
  using assms
  by (simp_all add: timerFires_def enterScrollStep_def scrollStepEntry_def afterInfiniteScroll_def
        timerCallback_flags checkCacheSize_flags checkCacheSize_scrollCount Let_def)

lemma run_timers_paused:
  assumes "\<forall>ev \<in> set evs. isTimerFires ev"
    and "\<not> isScrolling (analyzer s)" and "\<not> isProcessing (analyzer s)"
  shows "\<not> isScrolling (analyzer (run cfg evs s)) \<and> \<not> isProcessing (analyzer (run cfg evs s))
       \<and> scrollCount (analyzer (run cfg evs s)) = scrollCount (analyzer s)
       \<and> length (pending (run cfg evs s)) \<le> length (pending s)"
  using assms
proof (induction evs arbitrary: s)
  case Nil
  then show ?case by (simp add: run_def)
next
  case (Cons ev evs)
  from Cons.prems(1) obtain i document e now where ev: "ev = TimerFires i document e now"
    by (cases ev) auto
  let ?s1 = "timerFires cfg i document e now s"
  note p = timerFires_paused[OF Cons.prems(2,3), of cfg i document e now]
  have IH: "\<not> isScrolling (analyzer (run cfg evs ?s1)) \<and> \<not> isProcessing (analyzer (run cfg evs ?s1))
       \<and> scrollCount (analyzer (run cfg evs ?s1)) = scrollCount (analyzer ?s1)
       \<and> length (pending (run cfg evs ?s1)) \<le> length (pending ?s1)"
    using Cons.IH[of ?s1] Cons.prems(1) p(1,2) by simp
  have r: "run cfg (ev # evs) s = run cfg evs ?s1" by (simp add: run_def ev)
  have "length (pending ?s1) \<le> length (pending s)" by (simp add: p(4))
  then show ?case using IH p(3) unfolding r by simp
qed

text \<open>A start command on a paused analyzer, on Twitter/X.\<close>

lemma start_paused:
  fixes cfg :: config
  assumes p: "\<not> isProcessing (analyzer s)" and tw: "onTwitter se"
  defines "st1 \<equiv> (analyzer s)\<lparr>isAnalyzing := True, isProcessing := True, isScrolling := True,
                     startTime := (if startTime (analyzer s) = None \<or> startTime (analyzer s) = Some 0
                                   then Some (nowAtStart se) else startTime (analyzer s))\<rparr>"
  defines "st3 \<equiv> (snd (detectMedia cfg (initialDocument se) st1))
                    \<lparr>isScrolling := True, scrollCount := 0, stabilityCounter := 0\<rparr>"
  shows "start cfg se e s = enterScrollStep cfg e (nowAtEnd se) (scrollDelay cfg) 0 (s\<lparr>analyzer := st3\<rparr>)"
    and "isAnalyzing st3 \<and> isProcessing st3 \<and> isScrolling st3 \<and> scrollCount st3 = 0 \<and> stabilityCounter st3 = 0"
    and "extended (analyzer s) st3"
proof -
  show "start cfg se e s = enterScrollStep cfg e (nowAtEnd se) (scrollDelay cfg) 0 (s\<lparr>analyzer := st3\<rparr>)"
    using p tw by (simp add: start_def startAnalysis_def st3_def st1_def Let_def)
  have fr: "sameSession st1 (snd (detectMedia cfg (initialDocument se) st1))"
    by (rule detectMedia_frame)
  then show "isAnalyzing st3 \<and> isProcessing st3 \<and> isScrolling st3 \<and> scrollCount st3 = 0 \<and> stabilityCounter st3 = 0"
    by (simp add: st3_def st1_def sameSession_def)
  have "extended st1 (snd (detectMedia cfg (initialDocument se) st1))"
    by (rule detectMedia_extended)
  then show "extended (analyzer s) st3"
    by (simp add: st3_def st1_def extended_def)
qed

lemma enterScrollStep_first:
  assumes "isScrolling (analyzer s)" and "scrollCount (analyzer s) = 0"
  shows "analyzer (enterScrollStep cfg e now d 0 s)
           = (if maxScrollAttempts cfg = 0 then (analyzer s)\<lparr>isProcessing := False, isScrolling := False\<rparr>
              else if scrollRaises e then scrollErrorLogged cfg (scrollError e) 1 (analyzer s)
              else (analyzer s)\<lparr>scrollCount := 1\<rparr>)"
    and "0 < maxScrollAttempts cfg \<Longrightarrow> \<exists>t. pending (enterScrollStep cfg e now d 0 s) = pending s @ [t]"
  using assms
  by (simp_all add: enterScrollStep_def scrollStepEntry_def afterInfiniteScroll_def)
text \<open>The sample tweets through extraction and detection.\<close>

lemma videoTweet_id:
  "videoIdOf videoTweet exampleVideo = Str ''tma_18f9a7a5''"
  by (simp add: videoIdOf_def videoTweet_def exampleTweet_def exampleVideo_def videoSrcOf_def
        posterSrcOf_def orElse_def generateUniqueId_def hashStep_def toStringRadix.simps)

lemma secondTweet_id:
  "videoIdOf secondTweet (exampleVideo\<lparr>vidSrc := Str ''https://video.twimg.com/v2.mp4'', vidDuration := Num 40\<rparr>)
     = Str ''tma_3a661fe3''"
  by (simp add: videoIdOf_def secondTweet_def videoTweet_def exampleTweet_def exampleVideo_def
        videoSrcOf_def posterSrcOf_def orElse_def generateUniqueId_def hashStep_def toStringRadix.simps)

lemma videoTweet_extracted:
  "extractVideoData cfg videoTweet st
     = (if Map_has (videoCache st) (Str ''tma_18f9a7a5'')
           \<or> list_ex (\<lambda>c. url c = Str ''https://video.twimg.com/v1.mp4'') (Map_values (videoCache st))
        then (0, st)
        else (1, st\<lparr>videoCache := Map_set (videoCache st) (Str ''tma_18f9a7a5'') (firstVideo (scrollCount st))\<rparr>))"
proof -
  have f: "videoPlayer videoTweet = Some exampleVideo" "tweetUrl videoTweet = Str ''/user/status/1''"
    "tweetMeta videoTweet = emptyMetadata"
    by (simp_all add: videoTweet_def exampleTweet_def)
  have g: "videoSrcOf videoTweet exampleVideo = Str ''https://video.twimg.com/v1.mp4''"
    "posterSrcOf exampleVideo = Str ''https://pbs.twimg.com/media/p1.jpg''"
    "buildFullUrl (Str ''/user/status/1'') = ''https://twitter.com/user/status/1''"
    "vidContainer exampleVideo" "vidStamp exampleVideo = 1700000000000" "durationOf exampleVideo = Num 12"
    by (simp_all add: videoSrcOf_def posterSrcOf_def exampleVideo_def buildFullUrl_def startsWith_def
          durationOf_def)
  show ?thesis
    by (simp add: extractVideoData_def f g videoTweet_id firstVideo_def Let_def)
qed

lemma secondTweet_extracted:
  "extractVideoData cfg secondTweet st
     = (if Map_has (videoCache st) (Str ''tma_3a661fe3'')
           \<or> list_ex (\<lambda>c. url c = Str ''https://video.twimg.com/v2.mp4'') (Map_values (videoCache st))
        then (0, st)
        else (1, st\<lparr>videoCache := Map_set (videoCache st) (Str ''tma_3a661fe3'') (secondVideo (scrollCount st))\<rparr>))"
proof -
  let ?v = "exampleVideo\<lparr>vidSrc := Str ''https://video.twimg.com/v2.mp4'', vidDuration := Num 40\<rparr>"
  have f: "videoPlayer secondTweet = Some ?v" "tweetUrl secondTweet = Str ''/user/status/2''"
    "tweetMeta secondTweet = emptyMetadata"
    by (simp_all add: secondTweet_def videoTweet_def exampleTweet_def)
  have g: "videoSrcOf secondTweet ?v = Str ''https://video.twimg.com/v2.mp4''"
    "posterSrcOf ?v = Str ''https://pbs.twimg.com/media/p1.jpg''"
    "buildFullUrl (Str ''/user/status/2'') = ''https://twitter.com/user/status/2''"
    "vidContainer ?v" "vidStamp ?v = 1700000000000" "durationOf ?v = Num 40"
    by (simp_all add: videoSrcOf_def posterSrcOf_def exampleVideo_def buildFullUrl_def startsWith_def
          durationOf_def)
  show ?thesis
    by (simp add: extractVideoData_def f g secondTweet_id secondVideo_def Let_def)
qed

lemma videoTweet_processed:
  assumes "detectVideos cfg"
  shows "processContainer cfg videoTweet (st, nv, ni)
           = (snd (extractVideoData cfg videoTweet st), nv + fst (extractVideoData cfg videoTweet st), ni)"
    and "processContainer cfg secondTweet (st, nv, ni)
           = (snd (extractVideoData cfg secondTweet st), nv + fst (extractVideoData cfg secondTweet st), ni)"
  using assms
  by (simp_all add: processContainer_def tryContainer_def secondTweet_def videoTweet_def exampleTweet_def
        split_beta)
text \<open>The sample session, step by step.\<close>

lemma sample_configs:
  "detectVideos defaultConfig" "detectVideos tightConfig"
  "maxScrollAttempts defaultConfig = 300" "maxScrollAttempts tightConfig = 300"
  "stabilityThreshold defaultConfig = 8" "stabilityThreshold tightConfig = 8"
  "scrollDelay defaultConfig = 5500" "scrollDelay tightConfig = 5500"
  "maxCacheSize defaultConfig = 10000" "maxCacheSize tightConfig = 1"
  by (simp_all add: defaultConfig_def tightConfig_def)

lemma firstPasses_run:
  "run defaultConfig firstPasses idle = afterFirstPasses"
  "run tightConfig firstPasses idle = afterFirstPasses"
  by (simp_all add: run_def firstPasses_def idle_def afterFirstPasses_def start_def startAnalysis_def
        enterScrollStep_def scrollStepEntry_def timerFires_def timerCallback_def afterInfiniteScroll_def
        detectMedia_def videoTweet_processed videoTweet_extracted stabilityUpdate_def checkCacheSize_def
        sample_configs twitterPage_def scrolls_def initialState_def firstVideo_def
        Map_has_def Map_values_def Map_size_def Let_def)
lemma run_append: "run cfg (evs @ evs') s = run cfg evs' (run cfg evs s)"
  by (simp add: run_def)

lemma stopped_sample:
  "scrollCount (analyzer (step cfg StopCommand afterFirstPasses)) = 3"
  "stabilityCounter (analyzer (step cfg StopCommand afterFirstPasses)) = 1"
  "map fst (videoCache (analyzer (step cfg StopCommand afterFirstPasses))) = [Str ''tma_18f9a7a5'']"
  by (simp_all add: afterFirstPasses_def stop_def initialState_def)

lemma restarted_sample:
  "scrollCount (analyzer (run defaultConfig [StopCommand, StartCommand restartPage scrolls] afterFirstPasses)) = 1"
  "stabilityCounter (analyzer (run defaultConfig [StopCommand, StartCommand restartPage scrolls] afterFirstPasses)) = 0"
  "map fst (videoCache (analyzer (run defaultConfig [StopCommand, StartCommand restartPage scrolls] afterFirstPasses)))
     = [Str ''tma_18f9a7a5'', Str ''tma_3a661fe3'']"
  "length (pending (run defaultConfig [StopCommand, StartCommand restartPage scrolls] afterFirstPasses)) = 2"
  by (simp_all add: run_def afterFirstPasses_def stop_def start_def startAnalysis_def
        enterScrollStep_def scrollStepEntry_def afterInfiniteScroll_def
        detectMedia_def videoTweet_processed secondTweet_extracted
        sample_configs restartPage_def twitterPage_def scrolls_def initialState_def firstVideo_def
        Map_has_def Map_values_def Map_size_def Let_def)

lemma waiting_pass_sample:
  "map fst (videoCache (analyzer
      (run tightConfig [StopCommand, TimerFires 0 (Inr [secondTweet]) scrolls 2000] afterFirstPasses)))
     = [Str ''tma_3a661fe3'']"
  "pending (run tightConfig [StopCommand, TimerFires 0 (Inr [secondTweet]) scrolls 2000] afterFirstPasses) = []"
  by (simp_all add: run_def afterFirstPasses_def stop_def timerFires_def timerCallback_def
        enterScrollStep_def scrollStepEntry_def afterInfiniteScroll_def
        detectMedia_def videoTweet_processed secondTweet_extracted stabilityUpdate_def
        checkCacheSize_def Array_sort_def byDuration_def ToNumber_def Map_new_def
        sample_configs scrolls_def initialState_def firstVideo_def secondVideo_def
        Map_has_def Map_values_def Map_size_def Let_def)

text \<open>
  After an immediate restart the timer of the stopped run is still pending beside the
  timer of the new run, and both loops go on: each of the two callbacks scrolls again, so
  \<open>scrollCount\<close>, which the restart had set to 1, is 3 after one pass of each loop.
\<close>

lemma restart_runs_two_loops:
  "scrollCount (analyzer (run defaultConfig
      [StopCommand, StartCommand restartPage scrolls,
       TimerFires 0 (Inr [videoTweet, secondTweet]) scrolls 2000,
       TimerFires 0 (Inr [videoTweet, secondTweet]) scrolls 2000] afterFirstPasses)) = 3"
  "length (pending (run defaultConfig
      [StopCommand, StartCommand restartPage scrolls,
       TimerFires 0 (Inr [videoTweet, secondTweet]) scrolls 2000,
       TimerFires 0 (Inr [videoTweet, secondTweet]) scrolls 2000] afterFirstPasses)) = 2"
  by (simp_all add: run_def afterFirstPasses_def stop_def start_def startAnalysis_def
        timerFires_def timerCallback_def stabilityUpdate_def checkCacheSize_def
        enterScrollStep_def scrollStepEntry_def afterInfiniteScroll_def
        detectMedia_def videoTweet_processed videoTweet_extracted secondTweet_extracted
        sample_configs restartPage_def twitterPage_def scrolls_def initialState_def firstVideo_def
        secondVideo_def Map_has_def Map_values_def Map_size_def Let_def)

text \<open>
  The two loops count on the same stability counter. With the threshold of 8 and nothing
  new on the page, the eighth callback after the restart ends its loop on stability; the
  callback of the other loop still runs, and ends that loop with the counter at 9.
\<close>

lemma two_loops_end:
  "stabilityCounter (analyzer (run defaultConfig
      [StopCommand, StartCommand twitterPage scrolls,
       quietPass, quietPass, quietPass, quietPass, quietPass, quietPass, quietPass, quietPass] afterFirstPasses)) = 8"
  "length (pending (run defaultConfig
      [StopCommand, StartCommand twitterPage scrolls,
       quietPass, quietPass, quietPass, quietPass, quietPass, quietPass, quietPass, quietPass] afterFirstPasses)) = 1"
  "stabilityCounter (analyzer (run defaultConfig
      [StopCommand, StartCommand twitterPage scrolls,
       quietPass, quietPass, quietPass, quietPass, quietPass, quietPass, quietPass, quietPass, quietPass] afterFirstPasses)) = 9"
  "pending (run defaultConfig
      [StopCommand, StartCommand twitterPage scrolls,
       quietPass, quietPass, quietPass, quietPass, quietPass, quietPass, quietPass, quietPass, quietPass] afterFirstPasses) = []"
  by (simp_all add: run_def quietPass_def afterFirstPasses_def stop_def start_def startAnalysis_def
        timerFires_def timerCallback_def stabilityUpdate_def checkCacheSize_def
        enterScrollStep_def scrollStepEntry_def afterInfiniteScroll_def
        detectMedia_def sample_configs twitterPage_def scrolls_def initialState_def firstVideo_def
        Map_size_def Let_def)

text \<open>
  Claim C7 as stated fails on the counters and on the caches. A session is stopped while
  its third pass waits: \<open>scrollCount\<close> is 3, the stability counter 1, and the video cache
  holds the first tweet's video. A start command right after the stop, with a second tweet
  in the document, leaves \<open>scrollCount\<close> at 1 and the stability counter at 0, and its
  initial detection adds the second video. When instead the waiting pass runs before any
  start command, with room for one record in the cache, its detection adds the second
  video and its trim evicts the first, the one that was cached at the stop.
\<close>

theorem resume_resets_counters:
  "scrollCount (analyzer (run defaultConfig (firstPasses @ [StopCommand]) idle)) = 3
   \<and> stabilityCounter (analyzer (run defaultConfig (firstPasses @ [StopCommand]) idle)) = 1
   \<and> map fst (videoCache (analyzer (run defaultConfig (firstPasses @ [StopCommand]) idle)))
        = [Str ''tma_18f9a7a5'']
   \<and> scrollCount (analyzer (run defaultConfig
          (firstPasses @ [StopCommand, StartCommand restartPage scrolls]) idle)) = 1
   \<and> stabilityCounter (analyzer (run defaultConfig
          (firstPasses @ [StopCommand, StartCommand restartPage scrolls]) idle)) = 0
   \<and> map fst (videoCache (analyzer (run defaultConfig
          (firstPasses @ [StopCommand, StartCommand restartPage scrolls]) idle)))
        = [Str ''tma_18f9a7a5'', Str ''tma_3a661fe3'']
   \<and> map fst (videoCache (analyzer (run tightConfig (firstPasses @ [StopCommand]) idle)))
        = [Str ''tma_18f9a7a5'']
   \<and> map fst (videoCache (analyzer (run tightConfig
          (firstPasses @ [StopCommand, TimerFires 0 (Inr [secondTweet]) scrolls 2000]) idle)))
        = [Str ''tma_3a661fe3'']"
proof -
  have s: "run cfg [StopCommand] afterFirstPasses = step cfg StopCommand afterFirstPasses" for cfg
    by (simp add: run_def)
  show ?thesis
    unfolding run_append firstPasses_run s
    using stopped_sample[of defaultConfig] stopped_sample(3)[of tightConfig]
      restarted_sample(1,2,3) waiting_pass_sample(1)
    by blast
qed

text \<open>
  Claim C7, amended. After a stop command the analyzer is paused, and stays so while
  timers that were pending fire: \<open>scrollCount\<close> stays, and a timer that fires runs its
  callback (detection, the stability update and, short of stability, the trim of the
  caches) and ends its loop. A start command then, on Twitter/X, sets the stability
  counter to 0 and \<open>scrollCount\<close> to 0 and, with its first scroll, to 1. It clears
  neither cache: every record cached just before the start command is still cached, in
  its place, and the initial detection may have appended records. With
  \<open>maxScrollAttempts\<close> above 0 the analyzer is running again, with a new timer pending
  beside those that were still pending.
\<close>

theorem start_after_stop:
  assumes "\<forall>ev \<in> set waiting. isTimerFires ev"
    and "paused = run cfg waiting (step cfg StopCommand s)"
    and "entry = step cfg (StartCommand se e) paused"
  shows "\<not> isScrolling (analyzer paused) \<and> \<not> isProcessing (analyzer paused)
       \<and> scrollCount (analyzer paused) = scrollCount (analyzer s)
       \<and> length (pending paused) \<le> length (pending s)
       \<and> (waiting = [] \<longrightarrow> videoCache (analyzer paused) = videoCache (analyzer s)
             \<and> imageCache (analyzer paused) = imageCache (analyzer s)
             \<and> stabilityCounter (analyzer paused) = stabilityCounter (analyzer s)
             \<and> pending paused = pending s)
       \<and> (i < length (pending paused) \<longrightarrow>
             analyzer (step cfg (TimerFires i document e' now) paused)
               = (let st4 = snd (timerCallback cfg document (pending paused ! i) (analyzer paused))
                  in if stabilityThreshold cfg \<le> stabilityCounter st4 then st4
                     else checkCacheSize cfg st4)
           \<and> pending (step cfg (TimerFires i document e' now) paused)
               = take i (pending paused) @ drop (Suc i) (pending paused))
       \<and> (\<exists>vs. videoCache (analyzer entry) = videoCache (analyzer paused) @ vs)
       \<and> (\<exists>is. imageCache (analyzer entry) = imageCache (analyzer paused) @ is)
       \<and> (onTwitter se \<longrightarrow>
             stabilityCounter (analyzer entry) = 0
           \<and> scrollCount (analyzer entry) = (if 0 < maxScrollAttempts cfg \<and> \<not> scrollRaises e then 1 else 0))
       \<and> (onTwitter se \<and> 0 < maxScrollAttempts cfg \<longrightarrow>
             isAnalyzing (analyzer entry) \<and> isProcessing (analyzer entry) \<and> isScrolling (analyzer entry)
           \<and> (\<exists>t. pending entry = pending paused @ [t]))"
proof -
  let ?s0 = "step cfg StopCommand s"
  have s0: "\<not> isScrolling (analyzer ?s0)" "\<not> isProcessing (analyzer ?s0)"
    "scrollCount (analyzer ?s0) = scrollCount (analyzer s)" "pending ?s0 = pending s"
    "videoCache (analyzer ?s0) = videoCache (analyzer s)" "imageCache (analyzer ?s0) = imageCache (analyzer s)"
    "stabilityCounter (analyzer ?s0) = stabilityCounter (analyzer s)"
    by (simp_all add: stop_def)
  note r = run_timers_paused[OF assms(1) s0(1,2), of cfg]
  have p: "\<not> isScrolling (analyzer paused)" "\<not> isProcessing (analyzer paused)"
    using r by (simp_all add: assms(2))
  have 1: "scrollCount (analyzer paused) = scrollCount (analyzer s)"
    "length (pending paused) \<le> length (pending s)"
    using r s0(3,4) by (simp_all add: assms(2))
  have 2: "waiting = [] \<longrightarrow> videoCache (analyzer paused) = videoCache (analyzer s)
             \<and> imageCache (analyzer paused) = imageCache (analyzer s)
             \<and> stabilityCounter (analyzer paused) = stabilityCounter (analyzer s)
             \<and> pending paused = pending s"
    using s0 by (simp add: assms(2) run_def)
  have off: "st\<lparr>isProcessing := False, isScrolling := False\<rparr> = st"
    if "\<not> isScrolling st" "\<not> isProcessing st" for st :: state
    using that by simp
  have 3: "i < length (pending paused) \<longrightarrow>
             analyzer (step cfg (TimerFires i document e' now) paused)
               = (let st4 = snd (timerCallback cfg document (pending paused ! i) (analyzer paused))
                  in if stabilityThreshold cfg \<le> stabilityCounter st4 then st4
                     else checkCacheSize cfg st4)
           \<and> pending (step cfg (TimerFires i document e' now) paused)
               = take i (pending paused) @ drop (Suc i) (pending paused)"
  proof
    assume i: "i < length (pending paused)"
    let ?st4 = "snd (timerCallback cfg document (pending paused ! i) (analyzer paused))"
    have f4: "\<not> isScrolling ?st4" "\<not> isProcessing ?st4"
      using p by (simp_all add: timerCallback_flags)
    have fc: "\<not> isScrolling (checkCacheSize cfg ?st4)" "\<not> isProcessing (checkCacheSize cfg ?st4)"
      using f4 by (simp_all add: checkCacheSize_flags)
    have a: "analyzer (timerFires cfg i document e' now paused)
        = (if stabilityThreshold cfg \<le> stabilityCounter ?st4 then ?st4 else checkCacheSize cfg ?st4)"
      using i f4 fc off[OF f4] off[OF fc]
      by (simp add: timerFires_def enterScrollStep_def scrollStepEntry_def afterInfiniteScroll_def Let_def)
    have b: "pending (timerFires cfg i document e' now paused)
        = take i (pending paused) @ drop (Suc i) (pending paused)"
      using timerFires_paused(4)[OF p, of cfg i document e' now] i by simp
    show "analyzer (step cfg (TimerFires i document e' now) paused)
               = (let st4 = snd (timerCallback cfg document (pending paused ! i) (analyzer paused))
                  in if stabilityThreshold cfg \<le> stabilityCounter st4 then st4
                     else checkCacheSize cfg st4)
           \<and> pending (step cfg (TimerFires i document e' now) paused)
               = take i (pending paused) @ drop (Suc i) (pending paused)"
      using a b by (simp add: Let_def)
  qed
  have en: "entry = start cfg se e paused" by (simp add: assms(3))
  show ?thesis
  proof (cases "onTwitter se")
    case False
    have "analyzer entry = (analyzer paused)\<lparr>isAnalyzing := True, isProcessing := False, isScrolling := False,
              startTime := (if startTime (analyzer paused) = None \<or> startTime (analyzer paused) = Some 0
                            then Some (nowAtStart se) else startTime (analyzer paused))\<rparr>"
      using False p by (simp add: en start_def startAnalysis_def Let_def)
    then have c: "videoCache (analyzer entry) = videoCache (analyzer paused) @ []"
      "imageCache (analyzer entry) = imageCache (analyzer paused) @ []"
      by simp_all
    from p 1 2 3 c False show ?thesis by blast
  next
    case True
    define st1 where "st1 = (analyzer paused)\<lparr>isAnalyzing := True, isProcessing := True, isScrolling := True,
                     startTime := (if startTime (analyzer paused) = None \<or> startTime (analyzer paused) = Some 0
                                   then Some (nowAtStart se) else startTime (analyzer paused))\<rparr>"
    define st3 where "st3 = (snd (detectMedia cfg (initialDocument se) st1))
                    \<lparr>isScrolling := True, scrollCount := 0, stabilityCounter := 0\<rparr>"
    note sp1 = start_paused(1)[OF p(2) True, where cfg=cfg and e=e, folded st1_def, folded st3_def]
    note sp2 = start_paused(2)[OF p(2) True, where cfg=cfg, folded st1_def, folded st3_def]
    note sp3 = start_paused(3)[OF p(2) True, where cfg=cfg, folded st1_def, folded st3_def]
    let ?q = "paused\<lparr>analyzer := st3\<rparr>"
    have q: "isScrolling (analyzer ?q)" "scrollCount (analyzer ?q) = 0" using sp2 by simp_all
    note f = enterScrollStep_first[OF q, of cfg e "nowAtEnd se" "scrollDelay cfg"]
    have an: "analyzer entry
           = (if maxScrollAttempts cfg = 0 then st3\<lparr>isProcessing := False, isScrolling := False\<rparr>
              else if scrollRaises e then scrollErrorLogged cfg (scrollError e) 1 st3
              else st3\<lparr>scrollCount := 1\<rparr>)"
      using f(1) by (simp add: en sp1)
    have lg: "sameSession st3 (scrollErrorLogged cfg (scrollError e) n st3)" for n
      by (rule scrollErrorLogged_frame)
    have lc: "videoCache (scrollErrorLogged cfg (scrollError e) n st3) = videoCache st3"
      "imageCache (scrollErrorLogged cfg (scrollError e) n st3) = imageCache st3" for n
      by (simp_all add: scrollErrorLogged_def logMessage_caches)
    have c: "videoCache (analyzer entry) = videoCache st3" "imageCache (analyzer entry) = imageCache st3"
      by (simp_all add: an lc)
    have 4: "\<exists>vs. videoCache (analyzer entry) = videoCache (analyzer paused) @ vs"
      and 5: "\<exists>is. imageCache (analyzer entry) = imageCache (analyzer paused) @ is"
      using sp3 by (simp_all add: c extended_def)
    have 6: "stabilityCounter (analyzer entry) = 0
           \<and> scrollCount (analyzer entry) = (if 0 < maxScrollAttempts cfg \<and> \<not> scrollRaises e then 1 else 0)"
      using sp2 lg by (simp add: an sameSession_def)
    have 7: "0 < maxScrollAttempts cfg \<longrightarrow>
             isAnalyzing (analyzer entry) \<and> isProcessing (analyzer entry) \<and> isScrolling (analyzer entry)
           \<and> (\<exists>t. pending entry = pending paused @ [t])"
    proof
      assume m: "0 < maxScrollAttempts cfg"
      have "\<exists>t. pending entry = pending paused @ [t]"
        using f(2)[OF m] by (simp add: en sp1)
      then show "isAnalyzing (analyzer entry) \<and> isProcessing (analyzer entry) \<and> isScrolling (analyzer entry)
           \<and> (\<exists>t. pending entry = pending paused @ [t])"
        using sp2 lg m by (simp add: an sameSession_def)
    qed
    from p 1 2 3 4 5 6 7 show ?thesis by blast
  qed
qed

theorem start_after_stop_witness:
  "\<not> isScrolling (analyzer (step defaultConfig StopCommand afterFirstPasses))
   \<and> analyzer (step defaultConfig (TimerFires 0 (Inr []) scrolls 2000)
                 (step defaultConfig StopCommand afterFirstPasses))
       = checkCacheSize defaultConfig
           (snd (timerCallback defaultConfig (Inr [])
                   \<lparr>timerVideosBefore = 1, timerImagesBefore = 0, timerDelay = 5500, timerErrors = 0\<rparr>
                   (analyzer (step defaultConfig StopCommand afterFirstPasses))))
   \<and> stabilityCounter (analyzer (run defaultConfig [StopCommand, StartCommand restartPage scrolls] afterFirstPasses)) = 0
   \<and> scrollCount (analyzer (run defaultConfig [StopCommand, StartCommand restartPage scrolls] afterFirstPasses)) = 1
   \<and> isScrolling (analyzer (run defaultConfig [StopCommand, StartCommand restartPage scrolls] afterFirstPasses))
   \<and> (\<exists>vs. videoCache (analyzer (run defaultConfig [StopCommand, StartCommand restartPage scrolls] afterFirstPasses))
              = [(Str ''tma_18f9a7a5'', firstVideo 1)] @ vs)"
proof -
  let ?paused = "step defaultConfig StopCommand afterFirstPasses"
  let ?entry = "run defaultConfig [StopCommand, StartCommand restartPage scrolls] afterFirstPasses"
  have w: "\<forall>ev \<in> set []. isTimerFires ev" by simp
  have pa: "?paused = run defaultConfig [] (step defaultConfig StopCommand afterFirstPasses)"
    by (simp add: run_def)
  have en: "?entry = step defaultConfig (StartCommand restartPage scrolls) ?paused"
    by (simp add: run_def)
  have h: "onTwitter restartPage" "0 < maxScrollAttempts defaultConfig" "\<not> scrollRaises scrolls"
    "0 < length (pending ?paused)"
    "pending ?paused ! 0 = \<lparr>timerVideosBefore = 1, timerImagesBefore = 0, timerDelay = 5500, timerErrors = 0\<rparr>"
    "videoCache (analyzer ?paused) = [(Str ''tma_18f9a7a5'', firstVideo 1)]"
    by (simp_all add: restartPage_def twitterPage_def defaultConfig_def scrolls_def afterFirstPasses_def
          stop_def)
  have q: "\<not> stabilityThreshold defaultConfig
             \<le> stabilityCounter (snd (timerCallback defaultConfig (Inr [])
                   \<lparr>timerVideosBefore = 1, timerImagesBefore = 0, timerDelay = 5500, timerErrors = 0\<rparr>
                   (analyzer ?paused)))"
    by (simp add: timerCallback_def detectMedia_def stabilityUpdate_def afterFirstPasses_def stop_def
          defaultConfig_def initialState_def Map_size_def Let_def)
  note t = start_after_stop[OF w pa en, where i=0 and document="Inr []" and e'=scrolls and now=2000]
  from t have 1: "\<not> isScrolling (analyzer ?paused)" by blast
  from t h(4)
  have "analyzer (step defaultConfig (TimerFires 0 (Inr []) scrolls 2000) ?paused)
               = (let st4 = snd (timerCallback defaultConfig (Inr []) (pending ?paused ! 0) (analyzer ?paused))
                  in if stabilityThreshold defaultConfig \<le> stabilityCounter st4 then st4
                     else checkCacheSize defaultConfig st4)"
    by blast
  then have 2: "analyzer (step defaultConfig (TimerFires 0 (Inr []) scrolls 2000) ?paused)
       = checkCacheSize defaultConfig
           (snd (timerCallback defaultConfig (Inr [])
                   \<lparr>timerVideosBefore = 1, timerImagesBefore = 0, timerDelay = 5500, timerErrors = 0\<rparr>
                   (analyzer ?paused)))"
    using q unfolding h(5) Let_def by simp
  from t h(1,2,3)
  have 3: "stabilityCounter (analyzer ?entry) = 0" and 4: "scrollCount (analyzer ?entry) = 1"
    and 5: "isScrolling (analyzer ?entry)"
    by simp_all
  from t have "\<exists>vs. videoCache (analyzer ?entry) = videoCache (analyzer ?paused) @ vs" by blast
  then have 6: "\<exists>vs. videoCache (analyzer ?entry) = [(Str ''tma_18f9a7a5'', firstVideo 1)] @ vs"
    unfolding h(6) .
  from 1 2 3 4 5 6 show ?thesis by blast
qed

end
